theory Spec2Isabelle
  imports
    Complex_Main
    "HOL-Library.Multiset"
    "HOL-Library.Char_ord"
    "HOL-Library.List_Lexorder"
    "HOL-Library.Log_Nat"
begin

section \<open>Data model\<close>

text \<open>
  The engine lives in the dashboard component: \<open>calculateCountryAggregates\<close>,
  \<open>calculateRegionAsAggregate\<close>, \<open>getNormalizedSeries\<close>, \<open>calculateStats\<close>, the two
  chart-data joins and \<open>sortedMatrix\<close>. JavaScript numbers are modelled as exact rationals
  (no NaN, no infinities); row counts are naturals. Arithmetic is exact, except in
  \<open>calculateStats\<close>, whose printed digits depend on the rounding of each operation to a
  double: there the rounding is a parameter of the model. Several interfaces of the
  source share field names (\<open>ds\<close>, \<open>avgMobility\<close>, \<open>count\<close>, ...); the raw record and the
  matrix row keep the source's names, the other records carry a one-letter prefix.
\<close>

record MovementRecord =
  ds :: string
  country :: string
  polygon_source :: string
  polygon_id :: string
  polygon_name :: string
  all_day_bing_tiles_visited_relative_change :: rat
  all_day_ratio_single_tile_users :: rat
  baseline_name :: string
  baseline_type :: string

record RegionStats =
  name :: string
  avgMobility :: rat
  avgStay :: rat
  maxStay :: rat
  minMobility :: rat
  dataPoints :: nat

record NormalizedDataPoint =
  n_ds :: string
  mobility :: rat
  stay :: rat
  n_baseline_type :: "string option"

text \<open>The value type of \<open>dateMap\<close>: \<open>{ count, mobSum, staySum }\<close>.\<close>

record DateEntry =
  d_count :: nat
  mobSum :: rat
  staySum :: rat

text \<open>One element of \<open>trend\<close>: \<open>{ ds, avgMobility, avgStay }\<close>.\<close>

record TrendPoint =
  t_ds :: string
  t_avgMobility :: rat
  t_avgStay :: rat

record CountryAggregate =
  trend :: "TrendPoint list"
  matrix :: "RegionStats list"
  totalRegions :: nat

definition WHOLE_COUNTRY_OPTION :: string where
  "WHOLE_COUNTRY_OPTION = ''(Whole Country Average)''"

section \<open>Host primitives\<close>

text \<open>
  A JavaScript \<open>Map\<close> iterates in insertion order and \<open>set\<close> on a present key keeps the
  key's position, so a map is an association list. \<open>mapUpsert k init f\<close> is the idiom
  \<open>if (!m.has(k)) m.set(k, init); const e = m.get(k)!; (mutate e by f)\<close>.
\<close>

fun mapUpsert :: "'k \<Rightarrow> 'v \<Rightarrow> ('v \<Rightarrow> 'v) \<Rightarrow> ('k \<times> 'v) list \<Rightarrow> ('k \<times> 'v) list" where
  "mapUpsert k init f [] = [(k, f init)]"
| "mapUpsert k init f ((k', v) # m) =
     (if k' = k then (k', f v) # m else (k', v) # mapUpsert k init f m)"

text \<open>
  \<open>Array.prototype.sort\<close> with a comparator is stable; the model is the stable insertion
  sort. The comparator's result is an integer, a NaN result having been replaced by \<open>0\<close>
  as the language's \<open>SortCompare\<close> does. For a comparator that is not a consistent
  ordering the language leaves the order to the implementation; the model then still
  returns the permutation that insertion produces.
\<close>

fun insortBy :: "('a \<Rightarrow> 'a \<Rightarrow> int) \<Rightarrow> 'a \<Rightarrow> 'a list \<Rightarrow> 'a list" where
  "insortBy c x [] = [x]"
| "insortBy c x (y # ys) = (if c x y \<le> 0 then x # y # ys else y # insortBy c x ys)"

definition arraySort :: "('a \<Rightarrow> 'a \<Rightarrow> int) \<Rightarrow> 'a list \<Rightarrow> 'a list" where
  "arraySort c xs = foldr (insortBy c) xs []"

text \<open>
  \<open>new Date(s).getTime()\<close> is a parameter \<open>getTime\<close> of the model: the time value in
  milliseconds, or \<open>None\<close> for NaN (an unparseable string). \<open>dateCmp\<close> is the comparator
  \<open>(a, b) => new Date(a.ds).getTime() - new Date(b.ds).getTime()\<close> on the two date
  strings; a difference with a NaN operand is NaN, which the sort reads as \<open>0\<close>.
\<close>

definition dateCmp :: "(string \<Rightarrow> int option) \<Rightarrow> string \<Rightarrow> string \<Rightarrow> int" where
  "dateCmp getTime a b =
     (case getTime a of
        None \<Rightarrow> 0
      | Some x \<Rightarrow> (case getTime b of None \<Rightarrow> 0 | Some y \<Rightarrow> x - y))"

section \<open>Country Aggregator\<close>

definition emptyDateEntry :: DateEntry where
  "emptyDateEntry = \<lparr>d_count = 0, mobSum = 0, staySum = 0\<rparr>"

definition addToDate :: "MovementRecord \<Rightarrow> DateEntry \<Rightarrow> DateEntry" where
  "addToDate r dEntry =
     dEntry\<lparr>d_count := d_count dEntry + 1,
            mobSum := mobSum dEntry + all_day_bing_tiles_visited_relative_change r,
            staySum := staySum dEntry + all_day_ratio_single_tile_users r\<rparr>"

definition emptyRegionEntry :: "string \<Rightarrow> RegionStats" where
  "emptyRegionEntry n =
     \<lparr>name = n, avgMobility = 0, avgStay = 0, maxStay = - 1, minMobility = 999,
      dataPoints = 0\<rparr>"

definition addToRegion :: "MovementRecord \<Rightarrow> RegionStats \<Rightarrow> RegionStats" where
  "addToRegion r rEntry =
     rEntry\<lparr>avgMobility := avgMobility rEntry + all_day_bing_tiles_visited_relative_change r,
            avgStay := avgStay rEntry + all_day_ratio_single_tile_users r,
            maxStay := max (maxStay rEntry) (all_day_ratio_single_tile_users r),
            minMobility := min (minMobility rEntry) (all_day_bing_tiles_visited_relative_change r),
            dataPoints := dataPoints rEntry + 1\<rparr>"

text \<open>The body of \<open>raw.forEach\<close>, on the pair \<open>(dateMap, regionMap)\<close>.\<close>

definition accumulate ::
  "MovementRecord \<Rightarrow> (string \<times> DateEntry) list \<times> (string \<times> RegionStats) list
     \<Rightarrow> (string \<times> DateEntry) list \<times> (string \<times> RegionStats) list" where
  "accumulate r maps =
     (mapUpsert (ds r) emptyDateEntry (addToDate r) (fst maps),
      mapUpsert (polygon_name r) (emptyRegionEntry (polygon_name r)) (addToRegion r) (snd maps))"

text \<open>The two maps once \<open>raw.forEach\<close> has run over the country's rows.\<close>

definition dateMapOf :: "MovementRecord list \<Rightarrow> (string \<times> DateEntry) list" where
  "dateMapOf raw = fst (fold accumulate raw ([], []))"

definition regionMapOf :: "MovementRecord list \<Rightarrow> (string \<times> RegionStats) list" where
  "regionMapOf raw = snd (fold accumulate raw ([], []))"

definition finalizeTrend :: "string \<times> DateEntry \<Rightarrow> TrendPoint" where
  "finalizeTrend e =
     \<lparr>t_ds = fst e,
      t_avgMobility = mobSum (snd e) / of_nat (d_count (snd e)),
      t_avgStay = staySum (snd e) / of_nat (d_count (snd e))\<rparr>"

definition finalizeMatrix :: "RegionStats \<Rightarrow> RegionStats" where
  "finalizeMatrix r =
     r\<lparr>avgMobility := avgMobility r / of_nat (dataPoints r),
       avgStay := avgStay r / of_nat (dataPoints r)\<rparr>"

definition calculateCountryAggregates ::
  "(string \<Rightarrow> int option) \<Rightarrow> MovementRecord list \<Rightarrow> string \<Rightarrow> CountryAggregate option" where
  "calculateCountryAggregates getTime data c =
     (if c = [] then None
      else let raw = filter (\<lambda>d. country d = c) data in
        if length raw = 0 then None
        else let maps = fold accumulate raw ([], []);
                 dateMap = fst maps;
                 regionMap = snd maps
             in Some \<lparr>trend = arraySort (\<lambda>a b. dateCmp getTime (t_ds a) (t_ds b))
                                (map finalizeTrend dateMap),
                      matrix = map (\<lambda>e. finalizeMatrix (snd e)) regionMap,
                      totalRegions = length regionMap\<rparr>)"

section \<open>Series Normalizer\<close>

definition getNormalizedSeries ::
  "(string \<Rightarrow> int option) \<Rightarrow> MovementRecord list \<Rightarrow> string \<Rightarrow> string
     \<Rightarrow> NormalizedDataPoint list" where
  "getNormalizedSeries getTime data c r =
     (if c = [] \<or> r = [] then []
      else if r = WHOLE_COUNTRY_OPTION then
        (case calculateCountryAggregates getTime data c of
           None \<Rightarrow> []
         | Some agg \<Rightarrow>
             map (\<lambda>t. \<lparr>n_ds = t_ds t, mobility = t_avgMobility t, stay = t_avgStay t,
                        n_baseline_type = Some ''AVERAGE''\<rparr>) (trend agg))
      else
        map (\<lambda>d. \<lparr>n_ds = ds d,
                   mobility = all_day_bing_tiles_visited_relative_change d,
                   stay = all_day_ratio_single_tile_users d,
                   n_baseline_type = Some (baseline_type d)\<rparr>)
          (arraySort (\<lambda>a b. dateCmp getTime (ds a) (ds b))
             (filter (\<lambda>d. country d = c \<and> polygon_name d = r) data)))"

section \<open>Region-as-Aggregate Adapter\<close>

text \<open>
  \<open>Math.max(...xs)\<close> and \<open>Math.min(...xs)\<close> scan their arguments from the left. With no
  argument they are the infinities, which have no rational value; both callers return
  before the call when the list is empty, so the functions are given on non-empty lists.
\<close>

fun mathMax :: "rat list \<Rightarrow> rat" where
  "mathMax (x # xs) = fold (\<lambda>v highest. if v > highest then v else highest) xs x"

fun mathMin :: "rat list \<Rightarrow> rat" where
  "mathMin (x # xs) = fold (\<lambda>v lowest. if v < lowest then v else lowest) xs x"

definition calculateRegionAsAggregate ::
  "NormalizedDataPoint list \<Rightarrow> string \<Rightarrow> CountryAggregate option" where
  "calculateRegionAsAggregate dataset regionName =
     (if length dataset = 0 then None
      else let mobilityVals = map mobility dataset;
               stayVals = map stay dataset
           in Some
             \<lparr>trend = map (\<lambda>d. \<lparr>t_ds = n_ds d, t_avgMobility = mobility d, t_avgStay = stay d\<rparr>)
                         dataset,
              matrix =
                [\<lparr>name = regionName,
                  avgMobility = foldl (\<lambda>a b. a + b) 0 mobilityVals / of_nat (length mobilityVals),
                  avgStay = foldl (\<lambda>a b. a + b) 0 stayVals / of_nat (length stayVals),
                  maxStay = mathMax stayVals,
                  minMobility = mathMin mobilityVals,
                  dataPoints = length dataset\<rparr>],
              totalRegions = 1\<rparr>)"

section \<open>Stats Summarizer\<close>

text \<open>
  \<open>x.toFixed(1)\<close> works on the exact value of the number \<open>x\<close>. The sign is split off; from
  \<open>10^21\<close> on the result is the sign and the language's \<open>ToString\<close> of the absolute value,
  that is \<open>ToString\<close> of \<open>x\<close>, whose digits the model does not print: \<open>ToString x\<close>.
  Below, \<open>n\<close> is the integer with \<open>n / 10\<close> nearest to \<open>|x|\<close> (the larger one on a tie), and
  its decimal digits are printed with a point before the last one, padded to at least two
  digits: \<open>Fixed\<close> of that string.
\<close>

datatype NumberString = Fixed string | ToString rat

fun decimalDigits :: "nat \<Rightarrow> string" where
  "decimalDigits n =
     (if n < 10 then [''0123456789'' ! n]
      else decimalDigits (n div 10) @ [''0123456789'' ! (n mod 10)])"

definition toFixed1 :: "rat \<Rightarrow> NumberString" where
  "toFixed1 v =
     (if 10 ^ 21 \<le> \<bar>v\<bar> then ToString v
      else let s = (if v < 0 then ''-'' else []);
               n = nat \<lfloor>\<bar>v\<bar> * 10 + 1 / 2\<rfloor>;
               m = decimalDigits n;
               m' = (if length m \<le> 1 then replicate (2 - length m) (CHR ''0'') @ m else m)
           in Fixed (s @ take (length m' - 1) m' @ ''.'' @ drop (length m' - 1) m'))"

record Stats =
  s_avgMobility :: NumberString
  s_maxStayHome :: NumberString
  s_count :: nat
  s_start :: string
  s_end :: string

text \<open>
  \<open>dataset[i].ds\<close>: an index past the end reads \<open>undefined\<close>, and the property access on
  it throws a \<open>TypeError\<close>. These two reads are the only indexed reads of the engine.
\<close>

datatype JsError = TypeError

definition dsAt :: "NormalizedDataPoint list \<Rightarrow> nat \<Rightarrow> JsError + string" where
  "dsAt dataset i = (if i < length dataset then Inr (n_ds (dataset ! i)) else Inl TypeError)"

text \<open>
  The numbers \<open>calculateStats\<close> prints are doubles: each of \<open>a + b\<close>, \<open>sum / length\<close> and
  \<open>x * 100\<close> returns the double nearest to the exact result. \<open>fl\<close> is that rounding, a
  parameter of the model (results beyond the largest double, which become infinite, are
  outside it); with the identity for \<open>fl\<close> the arithmetic is exact. \<open>Math.max\<close> and the
  comparison of numbers do not round.
\<close>

definition calculateStats ::
  "(rat \<Rightarrow> rat) \<Rightarrow> NormalizedDataPoint list \<Rightarrow> JsError + Stats option" where
  "calculateStats fl dataset =
     (if length dataset = 0 then Inr None
      else let mobilityChanges = map mobility dataset;
               stayHomeRatios = map stay dataset;
               avgMobility' = fl (foldl (\<lambda>a b. fl (a + b)) 0 mobilityChanges
                                    / of_nat (length mobilityChanges));
               maxStayHome = mathMax stayHomeRatios
           in case dsAt dataset 0 of
                Inl e \<Rightarrow> Inl e
              | Inr start \<Rightarrow>
                  (case dsAt dataset (length dataset - 1) of
                     Inl e \<Rightarrow> Inl e
                   | Inr end' \<Rightarrow>
                       Inr (Some \<lparr>s_avgMobility = toFixed1 (fl (avgMobility' * 100)),
                                  s_maxStayHome = toFixed1 (fl (maxStayHome * 100)),
                                  s_count = length dataset,
                                  s_start = start,
                                  s_end = end'\<rparr>)))"

section \<open>Comparison Merger\<close>

record ChartDataPoint =
  c_ds :: string
  primary_mobility :: "rat option"
  primary_stay :: "rat option"
  primary_label :: "string option"
  secondary_mobility :: "rat option"
  secondary_stay :: "rat option"
  secondary_label :: "string option"

text \<open>\<open>Map.prototype.set\<close>: a present key keeps its position, a new key goes last.\<close>

fun mapSet :: "'k \<Rightarrow> 'v \<Rightarrow> ('k \<times> 'v) list \<Rightarrow> ('k \<times> 'v) list" where
  "mapSet k v [] = [(k, v)]"
| "mapSet k v ((k', v') # m) = (if k' = k then (k, v) # m else (k', v') # mapSet k v m)"

text \<open>
  The two chart joins run the same two loops, over \<open>{ds, mobility, stay}\<close> points in
  \<open>comparisonChartData\<close> and over \<open>{ds, avgMobility, avgStay}\<close> points in
  \<open>countryComparisonChartData\<close>; a point is passed as its date and its two numbers.
  \<open>primaryRow\<close> is the object the first loop stores, \<open>blankRow\<close> the object the second
  loop creates for a date the map does not hold (its \<open>primary_label\<close> is absent in the
  first join and the country in the second), \<open>withSecondary\<close> the three assignments of
  the second loop. \<open>setPrimary\<close> and \<open>setSecondary\<close> are the bodies of the two loops.
\<close>

definition primaryRow :: "string \<Rightarrow> string \<times> rat \<times> rat \<Rightarrow> ChartDataPoint" where
  "primaryRow label d =
     \<lparr>c_ds = fst d, primary_mobility = Some (fst (snd d)), primary_stay = Some (snd (snd d)),
      primary_label = Some label, secondary_mobility = None, secondary_stay = None,
      secondary_label = None\<rparr>"

definition blankRow :: "string option \<Rightarrow> string \<times> rat \<times> rat \<Rightarrow> ChartDataPoint" where
  "blankRow dflt d =
     \<lparr>c_ds = fst d, primary_mobility = None, primary_stay = None, primary_label = dflt,
      secondary_mobility = None, secondary_stay = None, secondary_label = None\<rparr>"

definition withSecondary ::
  "string \<Rightarrow> string \<times> rat \<times> rat \<Rightarrow> ChartDataPoint \<Rightarrow> ChartDataPoint" where
  "withSecondary label d existing =
     existing\<lparr>secondary_mobility := Some (fst (snd d)),
              secondary_stay := Some (snd (snd d)),
              secondary_label := Some label\<rparr>"

definition setPrimary ::
  "string \<Rightarrow> string \<times> rat \<times> rat \<Rightarrow> (string \<times> ChartDataPoint) list
     \<Rightarrow> (string \<times> ChartDataPoint) list" where
  "setPrimary label d dataMap = mapSet (fst d) (primaryRow label d) dataMap"

definition setSecondary ::
  "string option \<Rightarrow> string \<Rightarrow> string \<times> rat \<times> rat \<Rightarrow> (string \<times> ChartDataPoint) list
     \<Rightarrow> (string \<times> ChartDataPoint) list" where
  "setSecondary dflt label d dataMap =
     (let existing = (case map_of dataMap (fst d) of Some e \<Rightarrow> e | None \<Rightarrow> blankRow dflt d)
      in mapSet (fst d) (withSecondary label d existing) dataMap)"

definition seriesPoint :: "NormalizedDataPoint \<Rightarrow> string \<times> rat \<times> rat" where
  "seriesPoint d = (n_ds d, mobility d, stay d)"

definition trendPoint :: "TrendPoint \<Rightarrow> string \<times> rat \<times> rat" where
  "trendPoint d = (t_ds d, t_avgMobility d, t_avgStay d)"

definition comparisonChartData ::
  "(string \<Rightarrow> int option) \<Rightarrow> NormalizedDataPoint list \<Rightarrow> NormalizedDataPoint list \<Rightarrow> bool
     \<Rightarrow> string \<Rightarrow> string \<Rightarrow> string \<Rightarrow> string \<Rightarrow> ChartDataPoint list" where
  "comparisonChartData getTime primaryData secondaryData isCompareMode
       selectedRegion selectedCountry selectedRegion2 selectedCountry2 =
     (let dataMap =
            fold (\<lambda>d. setPrimary
                         (if selectedRegion = WHOLE_COUNTRY_OPTION
                          then selectedCountry @ '' (Avg)'' else selectedRegion)
                         (seriesPoint d))
              primaryData [];
          dataMap' =
            (if isCompareMode \<and> length secondaryData > 0
             then fold (\<lambda>d. setSecondary None
                               (if selectedRegion2 = WHOLE_COUNTRY_OPTION
                                then selectedCountry2 @ '' (Avg)'' else selectedRegion2)
                               (seriesPoint d))
                    secondaryData dataMap
             else dataMap)
      in arraySort (\<lambda>a b. dateCmp getTime (c_ds a) (c_ds b)) (map snd dataMap'))"

datatype CompareType = CompareCountry | CompareRegion

definition countryComparisonChartData ::
  "(string \<Rightarrow> int option) \<Rightarrow> CountryAggregate option \<Rightarrow> CountryAggregate option \<Rightarrow> bool
     \<Rightarrow> string \<Rightarrow> string \<Rightarrow> CompareType \<Rightarrow> string \<Rightarrow> ChartDataPoint list" where
  "countryComparisonChartData getTime countryOverviewData1 countryOverviewData2
       isCountryCompareMode countryViewCountry countryViewCountry2 countryCompareType
       countryViewRegion =
     (case countryOverviewData1 of
        None \<Rightarrow> []
      | Some data1 \<Rightarrow>
          let dataMap =
                fold (\<lambda>d. setPrimary countryViewCountry (trendPoint d)) (trend data1) [];
              dataMap' =
                (case countryOverviewData2 of
                   None \<Rightarrow> dataMap
                 | Some data2 \<Rightarrow>
                     if isCountryCompareMode
                     then fold (\<lambda>d. setSecondary (Some countryViewCountry)
                                       (if countryCompareType = CompareCountry
                                        then countryViewCountry2 else countryViewRegion)
                                       (trendPoint d))
                            (trend data2) dataMap
                     else dataMap)
          in arraySort (\<lambda>a b. dateCmp getTime (c_ds a) (c_ds b)) (map snd dataMap'))"

section \<open>Matrix Sorter\<close>

text \<open>
  \<open>keyof RegionStats\<close> and the two directions. \<open>fieldLess k a b\<close> is \<open>a[k] < b[k]\<close>:
  strings compare lexicographically by character code, numbers by value.
\<close>

datatype SortKey = Name | AvgMobility | AvgStay | MaxStay | MinMobility | DataPoints

datatype Direction = Asc | Desc

record SortConfig =
  key :: SortKey
  direction :: Direction

datatype MatrixTab = Primary | Secondary

fun fieldLess :: "SortKey \<Rightarrow> RegionStats \<Rightarrow> RegionStats \<Rightarrow> bool" where
  "fieldLess Name a b = (name a < name b)"
| "fieldLess AvgMobility a b = (avgMobility a < avgMobility b)"
| "fieldLess AvgStay a b = (avgStay a < avgStay b)"
| "fieldLess MaxStay a b = (maxStay a < maxStay b)"
| "fieldLess MinMobility a b = (minMobility a < minMobility b)"
| "fieldLess DataPoints a b = (dataPoints a < dataPoints b)"

definition matrixCmp :: "SortConfig \<Rightarrow> RegionStats \<Rightarrow> RegionStats \<Rightarrow> int" where
  "matrixCmp sortConfig a b =
     (if fieldLess (key sortConfig) a b then (if direction sortConfig = Asc then - 1 else 1)
      else if fieldLess (key sortConfig) b a then (if direction sortConfig = Asc then 1 else - 1)
      else 0)"

definition sortedMatrix ::
  "CountryAggregate option \<Rightarrow> CountryAggregate option \<Rightarrow> SortConfig option \<Rightarrow> MatrixTab
     \<Rightarrow> bool \<Rightarrow> RegionStats list" where
  "sortedMatrix countryOverviewData1 countryOverviewData2 sortConfig matrixTab
       isCountryCompareMode =
     (let activeData =
            (if matrixTab = Secondary \<and> isCountryCompareMode \<and> countryOverviewData2 \<noteq> None
             then countryOverviewData2 else countryOverviewData1)
      in case activeData of
           None \<Rightarrow> []
         | Some a \<Rightarrow>
             (case sortConfig of
                None \<Rightarrow> matrix a
              | Some cfg \<Rightarrow> arraySort (matrixCmp cfg) (matrix a)))"

subsection \<open>The same function on an explicit store\<close>

text \<open>
  \<open>sortable.sort(...)\<close> sorts in place, and \<open>[...activeData.matrix]\<close> is a shallow copy:
  a new array holding the same row objects. To say what the call leaves alone, arrays and
  row objects live in a store: an array is a list of references to rows, \<open>nextRef\<close> is
  the allocator's next address. \<open>m1\<close> and \<open>m2\<close> are \<open>countryOverviewData1?.matrix\<close> and
  \<open>countryOverviewData2?.matrix\<close>, \<open>None\<close> for a null aggregate. A reference that names
  no array or no row does not occur in a running program; the functions are made total
  there by treating such an array like a missing matrix and such a row as equal to every
  other.
\<close>

type_synonym ref = nat

record Heap =
  objects :: "ref \<Rightarrow> RegionStats option"
  arrays :: "ref \<Rightarrow> ref list option"
  nextRef :: ref

definition allocArray :: "Heap \<Rightarrow> ref list \<Rightarrow> ref \<times> Heap" where
  "allocArray h xs =
     (nextRef h, h\<lparr>arrays := (arrays h)(nextRef h \<mapsto> xs), nextRef := nextRef h + 1\<rparr>)"

definition heapCmp :: "Heap \<Rightarrow> SortConfig \<Rightarrow> ref \<Rightarrow> ref \<Rightarrow> int" where
  "heapCmp h sortConfig a b =
     (case objects h a of
        None \<Rightarrow> 0
      | Some x \<Rightarrow> (case objects h b of None \<Rightarrow> 0 | Some y \<Rightarrow> matrixCmp sortConfig x y))"

definition sortInPlace :: "Heap \<Rightarrow> ref \<Rightarrow> (ref \<Rightarrow> ref \<Rightarrow> int) \<Rightarrow> Heap" where
  "sortInPlace h a c =
     (case arrays h a of
        None \<Rightarrow> h
      | Some xs \<Rightarrow> h\<lparr>arrays := (arrays h)(a \<mapsto> arraySort c xs)\<rparr>)"

definition sortedMatrixHeap ::
  "Heap \<Rightarrow> ref option \<Rightarrow> ref option \<Rightarrow> SortConfig option \<Rightarrow> MatrixTab \<Rightarrow> bool
     \<Rightarrow> ref \<times> Heap" where
  "sortedMatrixHeap h m1 m2 sortConfig matrixTab isCountryCompareMode =
     (let activeMatrix =
            (if matrixTab = Secondary \<and> isCountryCompareMode \<and> m2 \<noteq> None then m2 else m1)
      in case activeMatrix of
           None \<Rightarrow> allocArray h []
         | Some m \<Rightarrow>
             (case arrays h m of
                None \<Rightarrow> allocArray h []
              | Some rows \<Rightarrow>
                  let copied = allocArray h rows;
                      sortable = fst copied;
                      h1 = snd copied
                  in case sortConfig of
                       None \<Rightarrow> (sortable, h1)
                     | Some cfg \<Rightarrow> (sortable, sortInPlace h1 sortable (heapCmp h1 cfg))))"

text \<open>The rows an array of the store holds, read through the references.\<close>

definition rowsOf :: "Heap \<Rightarrow> ref \<Rightarrow> RegionStats list option" where
  "rowsOf h a =
     (case arrays h a of
        None \<Rightarrow> None
      | Some refs \<Rightarrow>
          if list_all (\<lambda>r. objects h r \<noteq> None) refs
          then Some (map (\<lambda>r. the (objects h r)) refs) else None)"

section \<open>A date parser for the examples\<close>

text \<open>
  An instance of \<open>getTime\<close> for the date-only form \<open>YYYY-MM-DD\<close> the records carry:
  midnight UTC of a valid calendar date in milliseconds since 1970-01-01, NaN for any
  other string. It is used to evaluate the functions on concrete records; the theorems
  hold for every \<open>getTime\<close>. Its two digit readers also serve to read printed numbers back.
\<close>

definition digitVal :: "char \<Rightarrow> int option" where
  "digitVal ch =
     (let n = (of_char ch :: nat) in if 48 \<le> n \<and> n \<le> 57 then Some (int n - 48) else None)"

fun digitsVal :: "string \<Rightarrow> int option" where
  "digitsVal [] = None"
| "digitsVal [ch] = digitVal ch"
| "digitsVal (ch # rest) =
     (case digitVal ch of
        None \<Rightarrow> None
      | Some v \<Rightarrow> (case digitsVal rest of
                     None \<Rightarrow> None
                   | Some w \<Rightarrow> Some (v * 10 ^ length rest + w)))"

definition daysInMonth :: "int \<Rightarrow> int \<Rightarrow> int" where
  "daysInMonth y m =
     (if m = 2 then (if y mod 4 = 0 \<and> (y mod 100 \<noteq> 0 \<or> y mod 400 = 0) then 29 else 28)
      else if m = 4 \<or> m = 6 \<or> m = 9 \<or> m = 11 then 30 else 31)"

definition daysFromCivil :: "int \<Rightarrow> int \<Rightarrow> int \<Rightarrow> int" where
  "daysFromCivil y m d =
     (let y' = (if m \<le> 2 then y - 1 else y);
          mp = (if m \<le> 2 then m + 9 else m - 3)
      in 365 * y' + y' div 4 - y' div 100 + y' div 400 + (153 * mp + 2) div 5 + d - 1 - 719468)"

definition isoDateTime :: "string \<Rightarrow> int option" where
  "isoDateTime s =
     (if length s = 10 \<and> s ! 4 = CHR ''-'' \<and> s ! 7 = CHR ''-'' then
        (case (digitsVal (take 4 s), digitsVal (take 2 (drop 5 s)), digitsVal (drop 8 s)) of
           (Some y, Some m, Some d) \<Rightarrow>
             if 1 \<le> m \<and> m \<le> 12 \<and> 1 \<le> d \<and> d \<le> daysInMonth y m
             then Some (daysFromCivil y m d * 86400000) else None
         | _ \<Rightarrow> None)
      else None)"

section \<open>Notions for stating the properties\<close>

text \<open>The rows of region \<open>r\<close> of country \<open>c\<close>.\<close>

definition regionRows :: "MovementRecord list \<Rightarrow> string \<Rightarrow> string \<Rightarrow> MovementRecord list" where
  "regionRows data c r = filter (\<lambda>d. country d = c \<and> polygon_name d = r) data"

text \<open>
  The point the specification prescribes for a record:
  \<open>{date, mobility: mobilityChange, stay: stayHomeRatio, baselineType}\<close>.
\<close>

definition toPoint :: "MovementRecord \<Rightarrow> NormalizedDataPoint" where
  "toPoint d = \<lparr>n_ds = ds d, mobility = all_day_bing_tiles_visited_relative_change d,
                stay = all_day_ratio_single_tile_users d, n_baseline_type = Some (baseline_type d)\<rparr>"

text \<open>The time value of a date string that parses (\<open>0\<close> stands in where it does not).\<close>

definition timeOf :: "(string \<Rightarrow> int option) \<Rightarrow> string \<Rightarrow> int" where
  "timeOf getTime s = (case getTime s of None \<Rightarrow> 0 | Some t \<Rightarrow> t)"

text \<open>
  The value \<open>a[k]\<close> a sort key selects, for saying that the values of a key repeat or
  do not.
\<close>

datatype FieldValue = StrVal string | NumVal rat

fun fieldValue :: "SortKey \<Rightarrow> RegionStats \<Rightarrow> FieldValue" where
  "fieldValue Name a = StrVal (name a)"
| "fieldValue AvgMobility a = NumVal (avgMobility a)"
| "fieldValue AvgStay a = NumVal (avgStay a)"
| "fieldValue MaxStay a = NumVal (maxStay a)"
| "fieldValue MinMobility a = NumVal (minMobility a)"
| "fieldValue DataPoints a = NumVal (of_nat (dataPoints a))"

text \<open>
  \<open>matrixAt h m agg\<close>: the matrix reference \<open>m\<close> of the store and the aggregate \<open>agg\<close> of
  the value model describe the same thing, a null aggregate or an array whose rows are
  the aggregate's matrix.
\<close>

definition matrixAt :: "Heap \<Rightarrow> ref option \<Rightarrow> CountryAggregate option \<Rightarrow> bool" where
  "matrixAt h m agg =
     (case m of
        None \<Rightarrow> agg = None
      | Some a \<Rightarrow> (case agg of None \<Rightarrow> False | Some g \<Rightarrow> rowsOf h a = Some (matrix g)))"

text \<open>
  What the specification asks of the join of a primary list \<open>a\<close> and a secondary list \<open>b\<close>
  of points (date and two numbers): one row per date of either list; every point of \<open>a\<close>
  has a row of its date carrying its two numbers as primary values, every point of \<open>b\<close> a
  row carrying its two numbers as secondary values; a row whose date is not in \<open>a\<close> has
  null primary values; and the rows are in ascending order of time when the dates parse.
\<close>

definition mergedRows ::
  "(string \<Rightarrow> int option) \<Rightarrow> (string \<times> rat \<times> rat) list \<Rightarrow> (string \<times> rat \<times> rat) list
     \<Rightarrow> ChartDataPoint list \<Rightarrow> bool" where
  "mergedRows getTime a b out \<longleftrightarrow>
     distinct (map c_ds out)
     \<and> set (map c_ds out) = fst ` set a \<union> fst ` set b
     \<and> length out = card (fst ` set a \<union> fst ` set b)
     \<and> (\<forall>p\<in>set a. \<exists>row\<in>set out. c_ds row = fst p
            \<and> primary_mobility row = Some (fst (snd p)) \<and> primary_stay row = Some (snd (snd p)))
     \<and> (\<forall>q\<in>set b. \<exists>row\<in>set out. c_ds row = fst q
            \<and> secondary_mobility row = Some (fst (snd q)) \<and> secondary_stay row = Some (snd (snd q)))
     \<and> (\<forall>row\<in>set out. c_ds row \<notin> fst ` set a
            \<longrightarrow> primary_mobility row = None \<and> primary_stay row = None)
     \<and> ((\<forall>d\<in>fst ` set a \<union> fst ` set b. getTime d \<noteq> None)
            \<longrightarrow> sorted (map (\<lambda>row. timeOf getTime (c_ds row)) out))"

text \<open>Every row sits under its own date.\<close>

definition keyed :: "(string \<times> ChartDataPoint) list \<Rightarrow> bool" where
  "keyed m \<longleftrightarrow> (\<forall>e\<in>set m. c_ds (snd e) = fst e)"

text \<open>The map after both loops, from the empty map.\<close>

definition joinMap ::
  "string option \<Rightarrow> string \<Rightarrow> string \<Rightarrow> (string \<times> rat \<times> rat) list \<Rightarrow> (string \<times> rat \<times> rat) list
     \<Rightarrow> (string \<times> ChartDataPoint) list" where
  "joinMap dflt l1 l2 ps qs = fold (setSecondary dflt l2) qs (fold (setPrimary l1) ps [])"

text \<open>
  Rounding to one decimal as the specification means it: the nearest multiple of a tenth,
  a tie going away from zero.
\<close>

definition roundTenth :: "rat \<Rightarrow> rat" where
  "roundTenth v = (if v < 0 then - 1 else 1) * of_int \<lfloor>\<bar>v\<bar> * 10 + 1 / 2\<rfloor> / 10"

text \<open>
  The number a string of the form \<open>ddd.d\<close> or \<open>-ddd.d\<close> denotes (at least one digit before
  the point, exactly one after it).
\<close>

definition readUnsigned1 :: "string \<Rightarrow> rat option" where
  "readUnsigned1 t =
     (if 3 \<le> length t \<and> t ! (length t - 2) = CHR ''.'' then
        (case digitsVal (take (length t - 2) t) of
           None \<Rightarrow> None
         | Some a \<Rightarrow> (case digitVal (last t) of
                        None \<Rightarrow> None
                      | Some b \<Rightarrow> Some (of_int a + of_int b / 10)))
      else None)"

definition readFixed1 :: "string \<Rightarrow> rat option" where
  "readFixed1 s =
     (case readUnsigned1 s of
        Some q \<Rightarrow> Some q
      | None \<Rightarrow> (case s of
                    [] \<Rightarrow> None
                  | c # t \<Rightarrow> if c = CHR ''-'' then map_option uminus (readUnsigned1 t) else None))"

text \<open>
  \<open>printsTenth out v\<close>: \<open>out\<close> is the print of \<open>v\<close> with one decimal. Below \<open>10^21\<close> it is a
  string that denotes \<open>v\<close> rounded to one decimal; from there on it is \<open>ToString\<close> of \<open>v\<close>.
\<close>

definition printsTenth :: "NumberString \<Rightarrow> rat \<Rightarrow> bool" where
  "printsTenth out v =
     (if \<bar>v\<bar> < 10 ^ 21
      then (case out of Fixed str \<Rightarrow> readFixed1 str = Some (roundTenth v) | ToString w \<Rightarrow> False)
      else out = ToString v)"

section \<open>Example data\<close>

text \<open>
  Rows for the concrete evaluations below: two regions of country \<open>X\<close> (region \<open>A\<close> on
  two days, listed out of date order), one region of country \<open>Y\<close>.
\<close>

definition mkRecord :: "string \<Rightarrow> string \<Rightarrow> string \<Rightarrow> rat \<Rightarrow> rat \<Rightarrow> MovementRecord" where
  "mkRecord d c n mob st =
     \<lparr>ds = d, country = c, polygon_source = ''FB'', polygon_id = n, polygon_name = n,
      all_day_bing_tiles_visited_relative_change = mob,
      all_day_ratio_single_tile_users = st,
      baseline_name = ''full_february'', baseline_type = ''DAY_OF_WEEK''\<rparr>"

definition exampleData :: "MovementRecord list" where
  "exampleData =
     [mkRecord ''2020-01-02'' ''X'' ''A'' (- 4 / 10) (7 / 10),
      mkRecord ''2020-01-01'' ''X'' ''A'' (- 2 / 10) (5 / 10),
      mkRecord ''2020-01-01'' ''X'' ''B'' 0 (3 / 10),
      mkRecord ''2020-01-01'' ''Y'' ''C'' (1 / 10) (2 / 10)]"

text \<open>A single row whose mobility change lies above the seed of the running minimum.\<close>

definition seedData :: "MovementRecord list" where
  "seedData = [mkRecord ''2020-01-01'' ''X'' ''A'' 1000 (1 / 2)]"

text \<open>A series that is not in date order.\<close>

definition exampleSeries :: "NormalizedDataPoint list" where
  "exampleSeries =
     [\<lparr>n_ds = ''2020-01-02'', mobility = - 4 / 10, stay = 7 / 10, n_baseline_type = Some ''DAY_OF_WEEK''\<rparr>,
      \<lparr>n_ds = ''2020-01-01'', mobility = - 2 / 10, stay = 5 / 10, n_baseline_type = Some ''DAY_OF_WEEK''\<rparr>]"

text \<open>An aggregate with three matrix rows, two of them tied on \<open>avgStay\<close>.\<close>

definition exampleAggregate :: CountryAggregate where
  "exampleAggregate =
     \<lparr>trend = [\<lparr>t_ds = ''2020-01-01'', t_avgMobility = - 1 / 10, t_avgStay = 2 / 5\<rparr>],
      matrix =
        [\<lparr>name = ''B'', avgMobility = 0, avgStay = 3 / 10, maxStay = 3 / 10, minMobility = 0,
          dataPoints = 1\<rparr>,
         \<lparr>name = ''C'', avgMobility = 1 / 10, avgStay = 3 / 10, maxStay = 3 / 10,
          minMobility = 1 / 10, dataPoints = 1\<rparr>,
         \<lparr>name = ''A'', avgMobility = - 3 / 10, avgStay = 3 / 5, maxStay = 7 / 10,
          minMobility = - 2 / 5, dataPoints = 2\<rparr>],
      totalRegions = 3\<rparr>"

text \<open>A store holding the three rows of the example aggregate and its matrix array.\<close>

definition exampleHeap :: Heap where
  "exampleHeap =
     \<lparr>objects = (\<lambda>r. if r = 10 then Some (matrix exampleAggregate ! 0)
                      else if r = 11 then Some (matrix exampleAggregate ! 1)
                      else if r = 12 then Some (matrix exampleAggregate ! 2) else None),
      arrays = (\<lambda>r. if r = 0 then Some [10, 11, 12] else None),
      nextRef = 20\<rparr>"

text \<open>A one-point series and an aggregate with a two-day trend, for the join.\<close>

definition exampleSeriesB :: "NormalizedDataPoint list" where
  "exampleSeriesB =
     [\<lparr>n_ds = ''2020-01-01'', mobility = 0, stay = 3 / 10, n_baseline_type = Some ''DAY_OF_WEEK''\<rparr>]"

definition exampleAggregate2 :: CountryAggregate where
  "exampleAggregate2 =
     \<lparr>trend = [\<lparr>t_ds = ''2020-01-01'', t_avgMobility = 1 / 10, t_avgStay = 1 / 5\<rparr>,
               \<lparr>t_ds = ''2020-01-02'', t_avgMobility = 1 / 5, t_avgStay = 1 / 4\<rparr>],
      matrix = [\<lparr>name = ''C'', avgMobility = 3 / 20, avgStay = 9 / 40, maxStay = 1 / 4,
                 minMobility = 1 / 10, dataPoints = 2\<rparr>],
      totalRegions = 1\<rparr>"

text \<open>
  An instance of \<open>fl\<close>: the double nearest to a rational, ties to the even significand
  (53 bits, least exponent \<open>-1074\<close>; no overflow to infinity).
\<close>

definition pow2 :: "int \<Rightarrow> rat" where
  "pow2 e = (if 0 \<le> e then 2 ^ nat e else 1 / 2 ^ nat (- e))"

definition floorLog2 :: "rat \<Rightarrow> int" where
  "floorLog2 x =
     (let d = bitlen (fst (quotient_of x)) - bitlen (snd (quotient_of x))
      in if pow2 d \<le> x then d else d - 1)"

definition roundHalfEven :: "rat \<Rightarrow> int" where
  "roundHalfEven m =
     (let f = \<lfloor>m\<rfloor>; r = m - of_int f
      in if r < 1 / 2 then f else if 1 / 2 < r then f + 1 else if even f then f else f + 1)"

definition roundDouble :: "rat \<Rightarrow> rat" where
  "roundDouble x =
     (if x = 0 then 0
      else let q = max (floorLog2 \<bar>x\<bar> - 52) (- 1074)
           in (if x < 0 then - 1 else 1) * of_int (roundHalfEven (\<bar>x\<bar> / pow2 q)) * pow2 q)"

text \<open>
  A one-point series with the doubles written \<open>0.0015\<close> and \<open>0.2995\<close>. The first lies
  above \<open>15 / 10000\<close>, yet its product with 100 is the double just below \<open>0.15\<close>; the
  second lies below \<open>2995 / 10000\<close>, and so does its product with 100 below \<open>29.95\<close>.
\<close>

definition roundingSeries :: "NormalizedDataPoint list" where
  "roundingSeries =
     [\<lparr>n_ds = ''2020-01-01'', mobility = roundDouble (15 / 10000),
       stay = roundDouble (2995 / 10000), n_baseline_type = Some ''DAY_OF_WEEK''\<rparr>]"

section \<open>Properties of the host primitives\<close>

subsection \<open>Sorting\<close>

lemma mset_insortBy: "mset (insortBy c x xs) = add_mset x (mset xs)"
  by (induction xs) auto

lemma mset_arraySort: "mset (arraySort c xs) = mset xs"
  unfolding arraySort_def by (induction xs) (auto simp: mset_insortBy)

lemma set_arraySort: "set (arraySort c xs) = set xs"
  by (metis mset_arraySort set_mset_mset)

lemma length_arraySort: "length (arraySort c xs) = length xs"
  by (metis mset_arraySort size_mset)

lemma arraySort_Cons: "arraySort c (x # xs) = insortBy c x (arraySort c xs)"
  by (simp add: arraySort_def)

lemma arraySort_Nil: "arraySort c [] = []"
  by (simp add: arraySort_def)

lemma insortBy_insort_key:
  "\<forall>y\<in>set ys. (c x y \<le> 0) = (k x \<le> k y) \<Longrightarrow> insortBy c x ys = insort_key k x ys"
  by (induction ys) auto

lemma arraySort_sort_key:
  "\<forall>x\<in>set xs. \<forall>y\<in>set xs. (c x y \<le> 0) = (k x \<le> k y) \<Longrightarrow> arraySort c xs = sort_key k xs"
proof (induction xs)
  case Nil
  then show ?case by (simp add: arraySort_Nil)
next
  case (Cons x xs)
  have "arraySort c xs = sort_key k xs" using Cons by simp
  moreover have "\<forall>y\<in>set (sort_key k xs). (c x y \<le> 0) = (k x \<le> k y)"
    using Cons.prems by simp
  ultimately show ?case
    by (simp add: arraySort_Cons insortBy_insort_key)
qed

lemma insortBy_map: "insortBy c (f x) (map f ys) = map f (insortBy (\<lambda>a b. c (f a) (f b)) x ys)"
  by (induction ys) auto

lemma arraySort_map: "arraySort c (map f xs) = map f (arraySort (\<lambda>a b. c (f a) (f b)) xs)"
  by (induction xs) (auto simp: arraySort_Cons arraySort_Nil insortBy_map)

lemma sorted_wrt_insortBy:
  assumes tot: "\<And>y. y \<in> set ys \<Longrightarrow> c x y \<le> 0 \<or> c y x \<le> 0"
    and tr: "\<And>y z. y \<in> set ys \<Longrightarrow> z \<in> set ys \<Longrightarrow> c x y \<le> 0 \<Longrightarrow> c y z \<le> 0 \<Longrightarrow> c x z \<le> 0"
    and srt: "sorted_wrt (\<lambda>a b. c a b \<le> 0) ys"
  shows "sorted_wrt (\<lambda>a b. c a b \<le> 0) (insortBy c x ys)"
  using assms
proof (induction ys)
  case Nil
  then show ?case by simp
next
  case (Cons y ys)
  show ?case
  proof (cases "c x y \<le> 0")
    case True
    then show ?thesis using Cons.prems by auto
  next
    case False
    then have yx: "c y x \<le> 0" using Cons.prems(1)[of y] by simp
    have "sorted_wrt (\<lambda>a b. c a b \<le> 0) (insortBy c x ys)"
      using Cons.prems by (intro Cons.IH) auto
    moreover have "\<forall>z\<in>set (insortBy c x ys). c y z \<le> 0"
      using Cons.prems(3) yx by (auto simp: mset_insortBy simp flip: set_mset_mset)
    ultimately show ?thesis using False by simp
  qed
qed

subsection \<open>Maps\<close>

lemma map_fst_mapUpsert:
  "map fst (mapUpsert k i f m) = (if k \<in> fst ` set m then map fst m else map fst m @ [k])"
  by (induction m) force+

lemma set_fst_mapUpsert: "fst ` set (mapUpsert k i f m) = insert k (fst ` set m)"
proof -
  have "set (map fst (mapUpsert k i f m)) = insert k (set (map fst m))"
    unfolding map_fst_mapUpsert by auto
  then show ?thesis by simp
qed

lemma distinct_mapUpsert:
  "distinct (map fst m) \<Longrightarrow> distinct (map fst (mapUpsert k i f m))"
  by (simp add: map_fst_mapUpsert)

lemma map_of_mapUpsert:
  "map_of (mapUpsert k i f m) k' =
     (if k' = k then Some (f (case map_of m k of None \<Rightarrow> i | Some v \<Rightarrow> v)) else map_of m k')"
  by (induction m) auto

lemma sum_mapUpsert:
  fixes g :: "'v \<Rightarrow> rat"
  assumes "\<And>v. g (f v) = g v + delta" "g i = 0"
  shows "sum_list (map (\<lambda>e. g (snd e)) (mapUpsert k i f m)) = sum_list (map (\<lambda>e. g (snd e)) m) + delta"
  using assms by (induction m) auto


subsection \<open>Folds of upserts\<close>

lemma fold_upsert_keys:
  "fst ` set (fold (\<lambda>r. mapUpsert (kf r) (init r) (upd r)) rs m) = fst ` set m \<union> kf ` set rs"
  by (induction rs arbitrary: m) (auto simp: set_fst_mapUpsert)

lemma fold_upsert_distinct:
  "distinct (map fst m) \<Longrightarrow> distinct (map fst (fold (\<lambda>r. mapUpsert (kf r) (init r) (upd r)) rs m))"
  by (induction rs arbitrary: m) (auto simp: distinct_mapUpsert)

lemma fold_upsert_map_of:
  "map_of (fold (\<lambda>r. mapUpsert (kf r) (init (kf r)) (upd r)) rs m) k =
     (if filter (\<lambda>r. kf r = k) rs = [] then map_of m k
      else Some (fold upd (filter (\<lambda>r. kf r = k) rs)
                  (case map_of m k of None \<Rightarrow> init k | Some v \<Rightarrow> v)))"
proof (induction rs arbitrary: m)
  case Nil
  then show ?case by simp
next
  case (Cons r rs)
  show ?case
    by (cases "kf r = k") (simp_all add: Cons.IH map_of_mapUpsert)
qed

lemma fold_upsert_sum:
  fixes g :: "'v \<Rightarrow> rat"
  assumes "\<And>r v. g (upd r v) = g v + delta r" "\<And>r. g (init r) = 0"
  shows "sum_list (map (\<lambda>e. g (snd e)) (fold (\<lambda>r. mapUpsert (kf r) (init r) (upd r)) rs m))
           = sum_list (map (\<lambda>e. g (snd e)) m) + sum_list (map delta rs)"
proof (induction rs arbitrary: m)
  case Nil
  then show ?case by simp
next
  case (Cons r rs)
  show ?case
    by (simp add: Cons.IH sum_mapUpsert[where g = g and delta = "delta r", OF assms(1) assms(2)])
qed

subsection \<open>The two maps of the aggregator\<close>

lemma fold_accumulate:
  "fold accumulate rs maps =
     (fold (\<lambda>r. mapUpsert (ds r) emptyDateEntry (addToDate r)) rs (fst maps),
      fold (\<lambda>r. mapUpsert (polygon_name r) (emptyRegionEntry (polygon_name r)) (addToRegion r)) rs (snd maps))"
  by (induction rs arbitrary: maps) (simp_all add: accumulate_def)

lemma fold_addToDate:
  "fold addToDate rows v =
     v\<lparr>d_count := d_count v + length rows,
       mobSum := mobSum v + sum_list (map all_day_bing_tiles_visited_relative_change rows),
       staySum := staySum v + sum_list (map all_day_ratio_single_tile_users rows)\<rparr>"
  by (induction rows arbitrary: v) (simp_all add: addToDate_def)

lemma fold_addToRegion_sums:
  "avgMobility (fold addToRegion rows v) = avgMobility v + sum_list (map all_day_bing_tiles_visited_relative_change rows)"
  "avgStay (fold addToRegion rows v) = avgStay v + sum_list (map all_day_ratio_single_tile_users rows)"
  "dataPoints (fold addToRegion rows v) = dataPoints v + length rows"
  "name (fold addToRegion rows v) = name v"
  by (induction rows arbitrary: v) (simp_all add: addToRegion_def)



subsection \<open>What the aggregator returns\<close>

lemma regionMapOf_fold:
  "regionMapOf raw =
     fold (\<lambda>r. mapUpsert (polygon_name r) (emptyRegionEntry (polygon_name r)) (addToRegion r)) raw []"
  by (simp add: regionMapOf_def fold_accumulate)

lemma dateMapOf_fold:
  "dateMapOf raw = fold (\<lambda>r. mapUpsert (ds r) emptyDateEntry (addToDate r)) raw []"
  by (simp add: dateMapOf_def fold_accumulate)

lemma calculateCountryAggregates_Some:
  assumes "c \<noteq> []" and "filter (\<lambda>d. country d = c) data \<noteq> []"
  shows "calculateCountryAggregates getTime data c =
           Some \<lparr>trend = arraySort (\<lambda>a b. dateCmp getTime (t_ds a) (t_ds b))
                           (map finalizeTrend (dateMapOf (filter (\<lambda>d. country d = c) data))),
                 matrix = map (\<lambda>e. finalizeMatrix (snd e))
                            (regionMapOf (filter (\<lambda>d. country d = c) data)),
                 totalRegions = length (regionMapOf (filter (\<lambda>d. country d = c) data))\<rparr>"
  using assms by (simp add: calculateCountryAggregates_def dateMapOf_def regionMapOf_def Let_def)

lemma calculateCountryAggregates_None:
  "(calculateCountryAggregates getTime data c = None) = (c = [] \<or> filter (\<lambda>d. country d = c) data = [])"
  by (simp add: calculateCountryAggregates_def Let_def)

lemma distinct_regionMapOf: "distinct (map fst (regionMapOf raw))"
  unfolding regionMapOf_fold by (rule fold_upsert_distinct) simp

lemma keys_regionMapOf: "fst ` set (regionMapOf raw) = polygon_name ` set raw"
  unfolding regionMapOf_fold by (simp add: fold_upsert_keys)

lemma map_of_regionMapOf:
  "map_of (regionMapOf raw) k =
     (if filter (\<lambda>r. polygon_name r = k) raw = [] then None
      else Some (fold addToRegion (filter (\<lambda>r. polygon_name r = k) raw) (emptyRegionEntry k)))"
  unfolding regionMapOf_fold
  using fold_upsert_map_of[where kf = polygon_name and init = emptyRegionEntry and upd = addToRegion and m = "[]"]
  by simp

lemma regionMapOf_entry:
  assumes "e \<in> set (regionMapOf raw)"
  shows "filter (\<lambda>r. polygon_name r = fst e) raw \<noteq> []"
    and "snd e = fold addToRegion (filter (\<lambda>r. polygon_name r = fst e) raw) (emptyRegionEntry (fst e))"
proof -
  have "map_of (regionMapOf raw) (fst e) = Some (snd e)"
    using assms distinct_regionMapOf[of raw] by (simp add: map_of_eq_Some_iff)
  then show "filter (\<lambda>r. polygon_name r = fst e) raw \<noteq> []"
    and "snd e = fold addToRegion (filter (\<lambda>r. polygon_name r = fst e) raw) (emptyRegionEntry (fst e))"
    by (auto simp: map_of_regionMapOf split: if_splits)
qed

lemma distinct_dateMapOf: "distinct (map fst (dateMapOf raw))"
  unfolding dateMapOf_fold by (rule fold_upsert_distinct) simp

lemma keys_dateMapOf: "fst ` set (dateMapOf raw) = ds ` set raw"
  unfolding dateMapOf_fold by (simp add: fold_upsert_keys)

lemma map_of_dateMapOf:
  "map_of (dateMapOf raw) k =
     (if filter (\<lambda>r. ds r = k) raw = [] then None
      else Some (fold addToDate (filter (\<lambda>r. ds r = k) raw) emptyDateEntry))"
  unfolding dateMapOf_fold
  using fold_upsert_map_of[where kf = ds and init = "\<lambda>_. emptyDateEntry" and upd = addToDate and m = "[]"]
  by simp

lemma dateMapOf_entry:
  assumes "e \<in> set (dateMapOf raw)"
  shows "filter (\<lambda>r. ds r = fst e) raw \<noteq> []"
    and "snd e = fold addToDate (filter (\<lambda>r. ds r = fst e) raw) emptyDateEntry"
proof -
  have "map_of (dateMapOf raw) (fst e) = Some (snd e)"
    using assms distinct_dateMapOf[of raw] by (simp add: map_of_eq_Some_iff)
  then show "filter (\<lambda>r. ds r = fst e) raw \<noteq> []"
    and "snd e = fold addToDate (filter (\<lambda>r. ds r = fst e) raw) emptyDateEntry"
    by (auto simp: map_of_dateMapOf split: if_splits)
qed

lemma name_matrix_entry:
  "map (\<lambda>e. name (finalizeMatrix (snd e))) (regionMapOf raw) = map fst (regionMapOf raw)"
  by (rule map_cong) (simp_all add: regionMapOf_entry(2) fold_addToRegion_sums finalizeMatrix_def emptyRegionEntry_def)

lemma sum_list_arraySort:
  fixes g :: "'a \<Rightarrow> rat"
  shows "sum_list (map g (arraySort c xs)) = sum_list (map g xs)"
proof -
  have "sum_mset (image_mset g (mset (arraySort c xs))) = sum_mset (image_mset g (mset xs))"
    by (simp add: mset_arraySort)
  then show ?thesis
    by (simp only: mset_map[symmetric] sum_mset_sum_list)
qed


lemma regionMapOf_dataPoints:
  "e \<in> set (regionMapOf raw) \<Longrightarrow> 0 < dataPoints (snd e)"
  using regionMapOf_entry[of e raw]
  by (simp add: fold_addToRegion_sums emptyRegionEntry_def)

lemma sum_regionMapOf:
  "sum_list (map (\<lambda>e. avgMobility (snd e)) (regionMapOf raw))
     = sum_list (map all_day_bing_tiles_visited_relative_change raw)"
  unfolding regionMapOf_fold
  using fold_upsert_sum[where g = avgMobility and upd = addToRegion
      and delta = all_day_bing_tiles_visited_relative_change
      and init = "\<lambda>r. emptyRegionEntry (polygon_name r)" and kf = polygon_name and rs = raw and m = "[]"]
  by (simp add: addToRegion_def emptyRegionEntry_def)

lemma sum_dateMapOf:
  "sum_list (map (\<lambda>e. mobSum (snd e)) (dateMapOf raw))
     = sum_list (map all_day_bing_tiles_visited_relative_change raw)"
  unfolding dateMapOf_fold
  using fold_upsert_sum[where g = mobSum and upd = addToDate
      and delta = all_day_bing_tiles_visited_relative_change
      and init = "\<lambda>r. emptyDateEntry" and kf = ds and rs = raw and m = "[]"]
  by (simp add: addToDate_def emptyDateEntry_def)

lemma matrix_weighted_sum:
  "sum_list (map (\<lambda>e. avgMobility e * of_nat (dataPoints e))
               (map (\<lambda>e. finalizeMatrix (snd e)) (regionMapOf raw)))
     = sum_list (map all_day_bing_tiles_visited_relative_change raw)"
proof -
  have eq: "map (\<lambda>e. avgMobility (finalizeMatrix (snd e)) * of_nat (dataPoints (finalizeMatrix (snd e))))
          (regionMapOf raw)
        = map (\<lambda>e. avgMobility (snd e)) (regionMapOf raw)"
  proof (rule map_cong[OF refl])
    fix e assume "e \<in> set (regionMapOf raw)"
    then have "0 < dataPoints (snd e)" by (rule regionMapOf_dataPoints)
    then show "avgMobility (finalizeMatrix (snd e)) * of_nat (dataPoints (finalizeMatrix (snd e)))
                 = avgMobility (snd e)"
      by (simp add: finalizeMatrix_def)
  qed
  have "sum_list (map (\<lambda>e. avgMobility e * of_nat (dataPoints e))
               (map (\<lambda>e. finalizeMatrix (snd e)) (regionMapOf raw)))
        = sum_list (map (\<lambda>e. avgMobility (finalizeMatrix (snd e))
                             * of_nat (dataPoints (finalizeMatrix (snd e)))) (regionMapOf raw))"
    by (simp add: comp_def)
  also have "\<dots> = sum_list (map (\<lambda>e. avgMobility (snd e)) (regionMapOf raw))"
    by (simp only: eq)
  finally show ?thesis
    by (simp only: sum_regionMapOf)
qed

lemma trend_weighted_sum:
  "sum_list (map (\<lambda>t. t_avgMobility t * of_nat (length (filter (\<lambda>r. ds r = t_ds t) raw)))
               (arraySort cmp (map finalizeTrend (dateMapOf raw))))
     = sum_list (map all_day_bing_tiles_visited_relative_change raw)"
proof -
  have eq: "map (\<lambda>e. t_avgMobility (finalizeTrend e)
                   * of_nat (length (filter (\<lambda>r. ds r = t_ds (finalizeTrend e)) raw)))
          (dateMapOf raw)
        = map (\<lambda>e. mobSum (snd e)) (dateMapOf raw)"
  proof (rule map_cong[OF refl])
    fix e assume e: "e \<in> set (dateMapOf raw)"
    let ?rows = "filter (\<lambda>r. ds r = fst e) raw"
    have ne: "?rows \<noteq> []" and v: "snd e = fold addToDate ?rows emptyDateEntry"
      using dateMapOf_entry[OF e] by simp_all
    have "d_count (snd e) = length ?rows"
      unfolding v by (simp add: fold_addToDate emptyDateEntry_def)
    moreover have "0 < length ?rows" using ne by simp
    ultimately show "t_avgMobility (finalizeTrend e)
                   * of_nat (length (filter (\<lambda>r. ds r = t_ds (finalizeTrend e)) raw))
                 = mobSum (snd e)"
      by (simp add: finalizeTrend_def)
  qed
  have "sum_list (map (\<lambda>t. t_avgMobility t * of_nat (length (filter (\<lambda>r. ds r = t_ds t) raw)))
               (arraySort cmp (map finalizeTrend (dateMapOf raw))))
        = sum_list (map (\<lambda>e. t_avgMobility (finalizeTrend e)
                   * of_nat (length (filter (\<lambda>r. ds r = t_ds (finalizeTrend e)) raw)))
          (dateMapOf raw))"
    by (simp add: sum_list_arraySort comp_def)
  also have "\<dots> = sum_list (map (\<lambda>e. mobSum (snd e)) (dateMapOf raw))"
    by (simp only: eq)
  finally show ?thesis
    by (simp only: sum_dateMapOf)
qed



lemma trend_roundtrip:
  "map (\<lambda>d. \<lparr>t_ds = n_ds d, t_avgMobility = mobility d, t_avgStay = stay d\<rparr>)
     (map (\<lambda>t. \<lparr>n_ds = t_ds t, mobility = t_avgMobility t, stay = t_avgStay t,
                 n_baseline_type = Some ''AVERAGE''\<rparr>) ts) = ts"
  by (induction ts) simp_all

lemma dateMapOf_nonempty: "raw \<noteq> [] \<Longrightarrow> dateMapOf raw \<noteq> []"
  using keys_dateMapOf[of raw] by auto

lemma WHOLE_COUNTRY_OPTION_nonempty: "WHOLE_COUNTRY_OPTION \<noteq> []"
  by (simp add: WHOLE_COUNTRY_OPTION_def)


text \<open>
  Beyond the seeds the running extremes stay where they started: on a single row with a
  mobility change of 1000 the aggregator reports a minimum of 999, where the
  region-as-aggregate adapter reports 1000.
\<close>

lemma seed_beyond_valid_range:
  "map_option matrix (calculateCountryAggregates isoDateTime seedData ''X'')
     = Some [\<lparr>name = ''A'', avgMobility = 1000, avgStay = 1 / 2, maxStay = 1 / 2,
              minMobility = 999, dataPoints = 1\<rparr>]
   \<and> map_option matrix
        (calculateRegionAsAggregate (getNormalizedSeries isoDateTime seedData ''X'' ''A'') ''A'')
     = Some [\<lparr>name = ''A'', avgMobility = 1000, avgStay = 1 / 2, maxStay = 1 / 2,
              minMobility = 1000, dataPoints = 1\<rparr>]"
  by code_simp

subsection \<open>Series and statistics\<close>

lemma mathMax_Max: "xs \<noteq> [] \<Longrightarrow> mathMax xs = Max (set xs)"
proof (cases xs)
  case Nil
  then show "xs \<noteq> [] \<Longrightarrow> ?thesis" by simp
next
  case (Cons x ys)
  have "(\<lambda>v highest. if v > highest then v else highest) = (max :: rat \<Rightarrow> rat \<Rightarrow> rat)"
    by (auto simp: fun_eq_iff max_def)
  moreover have "fold max ys x = Max (set (x # ys))"
    by (simp only: Max.set_eq_fold)
  ultimately show ?thesis
    using Cons by (simp only: mathMax.simps)
qed

lemma mathMin_Min: "xs \<noteq> [] \<Longrightarrow> mathMin xs = Min (set xs)"
proof (cases xs)
  case Nil
  then show "xs \<noteq> [] \<Longrightarrow> ?thesis" by simp
next
  case (Cons x ys)
  have "(\<lambda>v lowest. if v < lowest then v else lowest) = (min :: rat \<Rightarrow> rat \<Rightarrow> rat)"
    by (auto simp: fun_eq_iff min_def)
  moreover have "fold min ys x = Min (set (x # ys))"
    by (simp only: Min.set_eq_fold)
  ultimately show ?thesis
    using Cons by (simp only: mathMin.simps)
qed

lemma foldl_plus: "foldl (\<lambda>a b. a + b) (a :: rat) xs = a + sum_list xs"
  by (induction xs arbitrary: a) simp_all

lemma decimalDigits_small: "n < 10 \<Longrightarrow> decimalDigits n = [''0123456789'' ! n]"
  by (subst decimalDigits.simps) simp

lemma decimalDigits_step:
  "10 \<le> n \<Longrightarrow> decimalDigits n = decimalDigits (n div 10) @ [''0123456789'' ! (n mod 10)]"
  by (subst decimalDigits.simps) simp

lemma decimalDigits_nonempty: "decimalDigits n \<noteq> []"
  by (subst decimalDigits.simps) simp

text \<open>
  Reading back what \<open>toFixed1\<close> prints: the digits of a number denote it, and below
  \<open>10^21\<close> the printed string denotes the value rounded to one decimal, which is within a
  twentieth of the value.
\<close>

lemma digitVal_digit: "k < 10 \<Longrightarrow> digitVal (''0123456789'' ! k) = Some (int k)"
proof -
  assume "k < 10"
  then have "k = 0 \<or> k = 1 \<or> k = 2 \<or> k = 3 \<or> k = 4 \<or> k = 5 \<or> k = 6 \<or> k = 7 \<or> k = 8 \<or> k = 9"
    by arith
  then show ?thesis
    by (elim disjE) (simp_all add: digitVal_def)
qed

lemma digitsVal_bad_head: "digitVal c = None \<Longrightarrow> digitsVal (c # xs) = None"
  by (cases xs) simp_all

lemma digitsVal_snoc:
  "xs \<noteq> [] \<Longrightarrow> digitsVal (xs @ [c]) =
     (case digitsVal xs of
        None \<Rightarrow> None
      | Some v \<Rightarrow> (case digitVal c of None \<Rightarrow> None | Some w \<Rightarrow> Some (v * 10 + w)))"
proof (induction xs rule: digitsVal.induct)
  case 1
  then show ?case by simp
next
  case (2 ch)
  then show ?case by (simp split: option.splits)
next
  case (3 ch v va)
  then show ?case
    by (simp add: algebra_simps split: option.splits)
qed

lemma digitsVal_decimalDigits: "digitsVal (decimalDigits k) = Some (int k)"
proof (induction k rule: decimalDigits.induct)
  case (1 n)
  show ?case
  proof (cases "n < 10")
    case True
    then show ?thesis
      by (simp add: decimalDigits_small digitVal_digit)
  next
    case False
    then have ih: "digitsVal (decimalDigits (n div 10)) = Some (int (n div 10))"
      using "1" by simp
    have "digitsVal (decimalDigits n)
            = digitsVal (decimalDigits (n div 10) @ [''0123456789'' ! (n mod 10)])"
      using False by (simp add: decimalDigits_step)
    also have "\<dots> = Some (int (n div 10) * 10 + int (n mod 10))"
      by (simp add: digitsVal_snoc decimalDigits_nonempty ih digitVal_digit
          del: decimalDigits.simps)
    also have "int (n div 10) * 10 + int (n mod 10) = int n"
      by (simp add: zdiv_int zmod_int)
    finally show ?thesis .
  qed
qed

lemma toFixed1_Fixed:
  assumes "\<bar>v\<bar> < 10 ^ 21"
  shows "toFixed1 v = Fixed ((if v < 0 then ''-'' else [])
           @ decimalDigits (nat \<lfloor>\<bar>v\<bar> * 10 + 1 / 2\<rfloor> div 10)
           @ ''.'' @ decimalDigits (nat \<lfloor>\<bar>v\<bar> * 10 + 1 / 2\<rfloor> mod 10))"
proof -
  let ?n = "nat \<lfloor>\<bar>v\<bar> * 10 + 1 / 2\<rfloor>"
  have b: "\<not> 10 ^ 21 \<le> \<bar>v\<bar>" using assms by simp
  show ?thesis
  proof (cases "?n < 10")
    case True
    then have "decimalDigits ?n = [''0123456789'' ! ?n]" "decimalDigits (?n div 10) = ''0''"
      "decimalDigits (?n mod 10) = [''0123456789'' ! ?n]"
      by (simp_all add: decimalDigits_small)
    then show ?thesis
      using b by (simp add: toFixed1_def Let_def del: decimalDigits.simps)
  next
    case False
    then have s: "decimalDigits ?n = decimalDigits (?n div 10) @ [''0123456789'' ! (?n mod 10)]"
      by (simp add: decimalDigits_step)
    have m: "decimalDigits (?n mod 10) = [''0123456789'' ! (?n mod 10)]"
      by (simp add: decimalDigits_small)
    show ?thesis
      unfolding toFixed1_def Let_def s m using b
      by (simp add: decimalDigits_nonempty del: decimalDigits.simps)
  qed
qed

lemma toFixed1_ToString: "10 ^ 21 \<le> \<bar>v\<bar> \<Longrightarrow> toFixed1 v = ToString v"
  by (simp add: toFixed1_def)

lemma readUnsigned1_digits:
  assumes "b < 10"
  shows "readUnsigned1 (decimalDigits a @ ''.'' @ decimalDigits b) = Some (of_nat a + of_nat b / 10)"
proof -
  let ?ds = "decimalDigits a"
  have db: "decimalDigits b = [''0123456789'' ! b]"
    using assms by (simp add: decimalDigits_small)
  have ne: "?ds \<noteq> []" by (rule decimalDigits_nonempty)
  let ?t = "?ds @ ''.'' @ [''0123456789'' ! b]"
  have len: "length ?t = length ?ds + 2" by simp
  have l3: "3 \<le> length ?t" using ne by (cases ?ds) simp_all
  have dot: "?t ! (length ?t - 2) = CHR ''.''"
    unfolding len by (simp add: nth_append del: decimalDigits.simps)
  have tk: "take (length ?t - 2) ?t = ?ds"
    unfolding len by (simp del: decimalDigits.simps)
  have la: "last ?t = ''0123456789'' ! b" by (simp del: decimalDigits.simps)
  show ?thesis
    unfolding db readUnsigned1_def
    using l3 dot
    by (simp only: tk la digitsVal_decimalDigits digitVal_digit[OF assms] if_True simp_thms
        option.case of_int_of_nat_eq)
qed

lemma readUnsigned1_minus: "readUnsigned1 (CHR ''-'' # t) = None"
proof (cases "3 \<le> length (CHR ''-'' # t) \<and> (CHR ''-'' # t) ! (length (CHR ''-'' # t) - 2) = CHR ''.''")
  case True
  then have "2 \<le> length t" by simp
  then have "length (CHR ''-'' # t) - 2 = Suc (length t - 2)"
    by simp
  then have "take (length (CHR ''-'' # t) - 2) (CHR ''-'' # t) = CHR ''-'' # take (length t - 2) t"
    by (simp only: take_Suc_Cons)
  moreover have "digitVal CHR ''-'' = None" by (simp add: digitVal_def)
  ultimately show ?thesis
    unfolding readUnsigned1_def
    by (simp add: digitsVal_bad_head del: digitsVal.simps)
next
  case False
  then show ?thesis unfolding readUnsigned1_def by (simp only: if_False)
qed

lemma readFixed1_digits:
  assumes "b < 10"
  shows "readFixed1 (decimalDigits a @ ''.'' @ decimalDigits b) = Some (of_nat a + of_nat b / 10)"
    and "readFixed1 (CHR ''-'' # decimalDigits a @ ''.'' @ decimalDigits b)
           = Some (- (of_nat a + of_nat b / 10))"
proof -
  let ?u = "decimalDigits a @ ''.'' @ decimalDigits b"
  have u: "readUnsigned1 ?u = Some (of_nat a + of_nat b / 10)"
    by (rule readUnsigned1_digits[OF assms])
  show "readFixed1 ?u = Some (of_nat a + of_nat b / 10)"
    unfolding readFixed1_def by (simp only: u option.case)
  show "readFixed1 (CHR ''-'' # ?u) = Some (- (of_nat a + of_nat b / 10))"
    unfolding readFixed1_def
    by (simp only: readUnsigned1_minus u option.case list.case simp_thms if_True option.map)
qed

lemma printsTenth_toFixed1: "printsTenth (toFixed1 v) v"
proof (cases "\<bar>v\<bar> < 10 ^ 21")
  case False
  then show ?thesis by (simp add: printsTenth_def toFixed1_ToString)
next
  case True
  define n where "n = nat \<lfloor>\<bar>v\<bar> * 10 + 1 / 2\<rfloor>"
  have "(of_nat n :: rat) = of_nat (n div 10 * 10 + n mod 10)"
    by simp
  also have "\<dots> = of_nat (n div 10) * 10 + of_nat (n mod 10)"
    by (simp only: of_nat_add of_nat_mult of_nat_numeral)
  finally have "(of_nat (n div 10) + of_nat (n mod 10) / 10 :: rat) = of_nat n / 10"
    by (simp add: add_divide_distrib)
  moreover have "(of_nat n :: rat) = of_int \<lfloor>\<bar>v\<bar> * 10 + 1 / 2\<rfloor>"
    unfolding n_def by simp
  ultimately have val: "(of_nat (n div 10) + of_nat (n mod 10) / 10 :: rat)
      = of_int \<lfloor>\<bar>v\<bar> * 10 + 1 / 2\<rfloor> / 10"
    by simp
  have m: "n mod 10 < 10" by simp
  note fx = toFixed1_Fixed[OF True, folded n_def]
  show ?thesis
  proof (cases "v < 0")
    case False
    then have "toFixed1 v = Fixed (decimalDigits (n div 10) @ ''.'' @ decimalDigits (n mod 10))"
      using fx by (simp del: decimalDigits.simps)
    moreover have "roundTenth v = of_int \<lfloor>\<bar>v\<bar> * 10 + 1 / 2\<rfloor> / 10"
      using False by (simp add: roundTenth_def)
    ultimately show ?thesis
      using True by (simp only: printsTenth_def if_True NumberString.case
          readFixed1_digits(1)[OF m] val)
  next
    case neg: True
    then have "toFixed1 v = Fixed (CHR ''-'' # decimalDigits (n div 10) @ ''.'' @ decimalDigits (n mod 10))"
      using fx by (simp del: decimalDigits.simps)
    moreover have "roundTenth v = - (of_int \<lfloor>\<bar>v\<bar> * 10 + 1 / 2\<rfloor> / 10)"
      using neg by (simp add: roundTenth_def)
    ultimately show ?thesis
      using True by (simp only: printsTenth_def if_True NumberString.case
          readFixed1_digits(2)[OF m] val)
  qed
qed

lemma roundTenth_nearest: "\<bar>roundTenth v - v\<bar> \<le> 1 / 20"
proof -
  define k where "k = \<lfloor>\<bar>v\<bar> * 10 + 1 / 2\<rfloor>"
  have b: "of_int k \<le> \<bar>v\<bar> * 10 + 1 / 2" "\<bar>v\<bar> * 10 + 1 / 2 < of_int k + 1"
    unfolding k_def by linarith+
  show ?thesis
  proof (cases "v < 0")
    case True
    then have "roundTenth v = - (of_int k / 10)"
      by (simp add: roundTenth_def k_def)
    then show ?thesis using b True by linarith
  next
    case False
    then have "roundTenth v = of_int k / 10"
      by (simp add: roundTenth_def k_def)
    then show ?thesis using b False by linarith
  qed
qed

text \<open>
  The rounding of the operations shows in the digits: on the doubles written \<open>0.0015\<close> and
  \<open>0.2995\<close> exact arithmetic prints \<open>0.2\<close> where the doubles print \<open>0.1\<close>.
\<close>

lemma stats_depend_on_rounding:
  "s_avgMobility (the (projr (calculateStats (\<lambda>x. x) roundingSeries))) = Fixed ''0.2''
   \<and> s_avgMobility (the (projr (calculateStats roundDouble roundingSeries))) = Fixed ''0.1''"
  by code_simp

lemma dateCmp_timeOf:
  "getTime a \<noteq> None \<Longrightarrow> getTime b \<noteq> None
     \<Longrightarrow> (dateCmp getTime a b \<le> 0) = (timeOf getTime a \<le> timeOf getTime b)"
  by (auto simp: dateCmp_def timeOf_def)

lemma arraySort_by_date:
  assumes "\<forall>x\<in>set xs. getTime (f x) \<noteq> None"
  shows "arraySort (\<lambda>a b. dateCmp getTime (f a) (f b)) xs = sort_key (\<lambda>x. timeOf getTime (f x)) xs"
  using assms by (intro arraySort_sort_key) (simp add: dateCmp_timeOf)

lemma sorted_arraySort_by_date:
  assumes "\<forall>x\<in>set xs. getTime (f x) \<noteq> None"
  shows "sorted (map (\<lambda>x. timeOf getTime (f x)) (arraySort (\<lambda>a b. dateCmp getTime (f a) (f b)) xs))"
  unfolding arraySort_by_date[OF assms] by (rule sorted_sort_key)

lemma getNormalizedSeries_region:
  assumes "c \<noteq> []" "r \<noteq> []" "r \<noteq> WHOLE_COUNTRY_OPTION"
  shows "getNormalizedSeries getTime data c r
           = map toPoint (arraySort (\<lambda>a b. dateCmp getTime (ds a) (ds b)) (regionRows data c r))"
  using assms by (simp add: getNormalizedSeries_def regionRows_def toPoint_def[abs_def])

subsection \<open>Sorting the matrix\<close>

lemma sorted_wrt_arraySort:
  assumes tot: "\<And>x y. c x y \<le> 0 \<or> c y x \<le> 0"
    and tr: "\<And>x y z. c x y \<le> 0 \<Longrightarrow> c y z \<le> 0 \<Longrightarrow> c x z \<le> 0"
  shows "sorted_wrt (\<lambda>a b. c a b \<le> 0) (arraySort c xs)"
proof (induction xs)
  case Nil
  then show ?case by (simp add: arraySort_Nil)
next
  case (Cons x xs)
  show ?case
    unfolding arraySort_Cons
    using tot tr Cons.IH by (intro sorted_wrt_insortBy) blast+
qed

lemma rev_sort_unique:
  fixes kf :: "'a \<Rightarrow> 'b::linorder"
  assumes asc: "\<And>a b. (casc a b \<le> 0) = (kf a \<le> kf b)"
    and desc: "\<And>a b. (cdesc a b \<le> 0) = (kf b \<le> kf a)"
    and dist: "distinct (map kf m)"
  shows "rev (arraySort casc m) = arraySort cdesc m"
proof -
  let ?A = "arraySort casc m" and ?D = "arraySort cdesc m"
  have A: "?A = sort_key kf m"
    by (rule arraySort_sort_key) (simp add: asc)
  have sA: "sorted (map kf ?A)" unfolding A by (rule sorted_sort_key)
  have "sorted_wrt (\<lambda>a b. cdesc a b \<le> 0) ?D"
    by (rule sorted_wrt_arraySort) (auto simp: desc)
  then have "sorted_wrt (\<lambda>a b. kf b \<le> kf a) ?D" by (simp add: desc)
  then have sD: "sorted (map kf (rev ?D))"
    by (simp add: sorted_map sorted_wrt_rev)
  have mA: "mset (map kf ?A) = mset (map kf m)" by (simp add: mset_arraySort)
  have mD: "mset (map kf (rev ?D)) = mset (map kf m)" by (simp add: mset_arraySort)
  have dA: "distinct (map kf ?A)" using dist mset_eq_imp_distinct_iff[OF mA] by simp
  have dD: "distinct (map kf (rev ?D))" using dist mset_eq_imp_distinct_iff[OF mD] by simp
  have "set (map kf (rev ?D)) = set (map kf ?A)"
    using mset_eq_setD[OF mA] mset_eq_setD[OF mD] by simp
  then have eq: "map kf (rev ?D) = map kf ?A"
    using sD sA dD dA by (intro sorted_distinct_set_unique)
  have "inj_on kf (set m)" using dist by (simp add: distinct_map)
  then have "inj_on kf (set (rev ?D) \<union> set ?A)" by (simp add: set_arraySort)
  then have "rev ?D = ?A" using eq by (simp only: inj_on_map_eq_map)
  then show ?thesis by (metis rev_rev_ident)
qed

lemma matrixCmp_Asc:
  "(matrixCmp \<lparr>key = k, direction = Asc\<rparr> a b \<le> 0) = (\<not> fieldLess k b a)"
  by (cases k) (auto simp: matrixCmp_def)

lemma matrixCmp_Desc:
  "(matrixCmp \<lparr>key = k, direction = Desc\<rparr> a b \<le> 0) = (\<not> fieldLess k a b)"
  by (cases k) (auto simp: matrixCmp_def)

lemma arraySort_asc_desc:
  assumes "distinct (map (fieldValue k) m)"
  shows "rev (arraySort (matrixCmp \<lparr>key = k, direction = Asc\<rparr>) m)
           = arraySort (matrixCmp \<lparr>key = k, direction = Desc\<rparr>) m"
proof (cases k)
  case Name
  have "distinct (map name m)"
    using assms unfolding Name by (simp add: distinct_map inj_on_def)
  then show ?thesis
    unfolding Name by (intro rev_sort_unique[where kf = name]) (auto simp: matrixCmp_Asc matrixCmp_Desc)
next
  case AvgMobility
  have "distinct (map avgMobility m)"
    using assms unfolding AvgMobility by (simp add: distinct_map inj_on_def)
  then show ?thesis
    unfolding AvgMobility by (intro rev_sort_unique[where kf = avgMobility]) (auto simp: matrixCmp_Asc matrixCmp_Desc)
next
  case AvgStay
  have "distinct (map avgStay m)"
    using assms unfolding AvgStay by (simp add: distinct_map inj_on_def)
  then show ?thesis
    unfolding AvgStay by (intro rev_sort_unique[where kf = avgStay]) (auto simp: matrixCmp_Asc matrixCmp_Desc)
next
  case MaxStay
  have "distinct (map maxStay m)"
    using assms unfolding MaxStay by (simp add: distinct_map inj_on_def)
  then show ?thesis
    unfolding MaxStay by (intro rev_sort_unique[where kf = maxStay]) (auto simp: matrixCmp_Asc matrixCmp_Desc)
next
  case MinMobility
  have "distinct (map minMobility m)"
    using assms unfolding MinMobility by (simp add: distinct_map inj_on_def)
  then show ?thesis
    unfolding MinMobility by (intro rev_sort_unique[where kf = minMobility]) (auto simp: matrixCmp_Asc matrixCmp_Desc)
next
  case DataPoints
  have "distinct (map dataPoints m)"
    using assms unfolding DataPoints by (simp add: distinct_map inj_on_def)
  then show ?thesis
    unfolding DataPoints by (intro rev_sort_unique[where kf = dataPoints]) (auto simp: matrixCmp_Asc matrixCmp_Desc)
qed

subsection \<open>Sorting in the store\<close>

lemma insortBy_cong:
  "(\<And>y. y \<in> set ys \<Longrightarrow> c x y = c' x y) \<Longrightarrow> insortBy c x ys = insortBy c' x ys"
  by (induction ys) auto

lemma arraySort_cong:
  "(\<And>x y. x \<in> set xs \<Longrightarrow> y \<in> set xs \<Longrightarrow> c x y = c' x y) \<Longrightarrow> arraySort c xs = arraySort c' xs"
proof (induction xs)
  case Nil
  then show ?case by (simp add: arraySort_Nil)
next
  case (Cons x xs)
  have "arraySort c xs = arraySort c' xs" using Cons by simp
  moreover have "insortBy c x (arraySort c' xs) = insortBy c' x (arraySort c' xs)"
    using Cons.prems by (intro insortBy_cong) (simp add: set_arraySort)
  ultimately show ?case by (simp add: arraySort_Cons)
qed

lemma heap_sort_rows:
  assumes "list_all (\<lambda>r. objects h r \<noteq> None) refs"
  shows "map (\<lambda>r. the (objects h r)) (arraySort (heapCmp h cfg) refs)
           = arraySort (matrixCmp cfg) (map (\<lambda>r. the (objects h r)) refs)"
proof -
  have "arraySort (heapCmp h cfg) refs
          = arraySort (\<lambda>a b. matrixCmp cfg (the (objects h a)) (the (objects h b))) refs"
    using assms by (intro arraySort_cong) (fastforce simp: heapCmp_def list_all_iff split: option.splits)
  then show ?thesis by (simp add: arraySort_map)
qed

lemma allocArray_simps:
  "fst (allocArray h xs) = nextRef h"
  "objects (snd (allocArray h xs)) = objects h"
  "arrays (snd (allocArray h xs)) = (arrays h)(nextRef h \<mapsto> xs)"
  by (simp_all add: allocArray_def)

lemma heapCmp_objects: "objects h1 = objects h \<Longrightarrow> heapCmp h1 cfg = heapCmp h cfg"
  by (auto simp: heapCmp_def fun_eq_iff split: option.splits)

lemma sortInPlace_simps:
  "objects (sortInPlace h a c) = objects h"
  "arrays h a = Some xs \<Longrightarrow> arrays (sortInPlace h a c) = (arrays h)(a \<mapsto> arraySort c xs)"
  by (simp_all add: sortInPlace_def split: option.splits)

lemma rowsOf_sorted:
  assumes "objects h' = objects h" and "arrays h' a = Some (arraySort (heapCmp h cfg) refs)"
    and "arrays h b = Some refs" and "rowsOf h b = Some rows"
  shows "rowsOf h' a = Some (arraySort (matrixCmp cfg) rows)"
proof -
  have v: "list_all (\<lambda>r. objects h r \<noteq> None) refs" and r: "rows = map (\<lambda>r. the (objects h r)) refs"
    using assms(3,4) by (auto simp: rowsOf_def split: if_splits)
  have "list_all (\<lambda>r. objects h r \<noteq> None) (arraySort (heapCmp h cfg) refs)"
    using v by (simp add: list_all_iff set_arraySort)
  then show ?thesis
    using assms(1,2) heap_sort_rows[OF v, of cfg] by (simp add: rowsOf_def r)
qed

lemma rowsOf_copy:
  assumes "objects h' = objects h" and "arrays h' a = Some refs"
    and "arrays h b = Some refs" and "rowsOf h b = Some rows"
  shows "rowsOf h' a = Some rows"
  using assms by (auto simp: rowsOf_def split: if_splits)

lemma rowsOf_empty: "arrays h a = Some [] \<Longrightarrow> rowsOf h a = Some []"
  by (simp add: rowsOf_def)

lemma sortedMatrixHeap_frame:
  assumes wf: "\<forall>a. arrays h a \<noteq> None \<longrightarrow> a < nextRef h"
    and res: "sortedMatrixHeap h m1 m2 sortConfig tab compareMode = (res, h')"
  shows "res = nextRef h" and "arrays h res = None" and "arrays h' res \<noteq> None"
    and "objects h' = objects h"
    and "\<forall>a. a \<noteq> res \<longrightarrow> arrays h' a = arrays h a"
proof -
  have fresh: "arrays h (nextRef h) = None" using wf by auto
  show "res = nextRef h"
    using res by (auto simp: sortedMatrixHeap_def allocArray_def sortInPlace_def Let_def
        split: option.splits if_splits)
  then show "arrays h res = None" using fresh by simp
  show "arrays h' res \<noteq> None"
    using res by (auto simp: sortedMatrixHeap_def allocArray_def sortInPlace_def Let_def
        split: option.splits if_splits)
  show "objects h' = objects h"
    using res by (auto simp: sortedMatrixHeap_def allocArray_def sortInPlace_def Let_def
        split: option.splits if_splits)
  show "\<forall>a. a \<noteq> res \<longrightarrow> arrays h' a = arrays h a"
    using res by (auto simp: sortedMatrixHeap_def allocArray_def sortInPlace_def Let_def
        split: option.splits if_splits)
qed

subsection \<open>The date-keyed join\<close>

lemma map_fst_mapSet:
  "map fst (mapSet k v m) = (if k \<in> fst ` set m then map fst m else map fst m @ [k])"
  by (induction m) force+

lemma map_of_mapSet: "map_of (mapSet k v m) = (map_of m)(k \<mapsto> v)"
  by (induction m) (auto simp: fun_eq_iff)

lemma set_mapSet: "e \<in> set (mapSet k v m) \<Longrightarrow> e = (k, v) \<or> e \<in> set m"
  by (induction m) (auto split: if_splits)

lemma keys_mapSet: "fst ` set (mapSet k v m) = insert k (fst ` set m)"
proof -
  have "set (map fst (mapSet k v m)) = insert k (set (map fst m))"
    unfolding map_fst_mapSet by auto
  then show ?thesis by simp
qed

lemma distinct_mapSet: "distinct (map fst m) \<Longrightarrow> distinct (map fst (mapSet k v m))"
  by (simp add: map_fst_mapSet)

lemma keyed_mapSet: "keyed m \<Longrightarrow> c_ds v = k \<Longrightarrow> keyed (mapSet k v m)"
  unfolding keyed_def using set_mapSet[of _ k v m] by fastforce

lemma keyed_map_of: "keyed m \<Longrightarrow> map_of m k = Some e \<Longrightarrow> c_ds e = k"
  unfolding keyed_def by (metis fst_conv map_of_SomeD snd_conv)

lemma keyed_setPrimary: "keyed m \<Longrightarrow> keyed (setPrimary l p m)"
  unfolding setPrimary_def by (rule keyed_mapSet) (simp_all add: primaryRow_def)

lemma keyed_setSecondary: "keyed m \<Longrightarrow> keyed (setSecondary dflt l q m)"
  unfolding setSecondary_def Let_def
  by (rule keyed_mapSet)
     (auto simp: withSecondary_def blankRow_def keyed_map_of split: option.splits)

lemma fold_setPrimary_keys:
  "fst ` set (fold (setPrimary l) ps m) = fst ` set m \<union> fst ` set ps"
  by (induction ps arbitrary: m) (auto simp: setPrimary_def keys_mapSet)

lemma fold_setPrimary_distinct:
  "distinct (map fst m) \<Longrightarrow> distinct (map fst (fold (setPrimary l) ps m))"
  by (induction ps arbitrary: m) (auto simp: setPrimary_def distinct_mapSet)

lemma fold_setPrimary_keyed: "keyed m \<Longrightarrow> keyed (fold (setPrimary l) ps m)"
  by (induction ps arbitrary: m) (auto simp: keyed_setPrimary)

lemma fold_setPrimary_other:
  "d \<notin> fst ` set ps \<Longrightarrow> map_of (fold (setPrimary l) ps m) d = map_of m d"
  by (induction ps arbitrary: m) (auto simp: setPrimary_def map_of_mapSet)

lemma fold_setPrimary_at:
  "distinct (map fst ps) \<Longrightarrow> p \<in> set ps
     \<Longrightarrow> map_of (fold (setPrimary l) ps m) (fst p) = Some (primaryRow l p)"
proof (induction ps arbitrary: m)
  case Nil
  then show ?case by simp
next
  case (Cons x ps)
  show ?case
  proof (cases "p = x")
    case True
    then have "fst x \<notin> fst ` set ps" using Cons.prems(1) by auto
    then have "map_of (fold (setPrimary l) ps (setPrimary l x m)) (fst x)
                 = map_of (setPrimary l x m) (fst x)"
      by (rule fold_setPrimary_other)
    also have "\<dots> = Some (primaryRow l x)"
      by (simp add: setPrimary_def map_of_mapSet)
    finally show ?thesis
      using True by simp
  next
    case False
    then show ?thesis using Cons by simp
  qed
qed

lemma fold_setSecondary_keys:
  "fst ` set (fold (setSecondary dflt l) qs m) = fst ` set m \<union> fst ` set qs"
  by (induction qs arbitrary: m) (auto simp: setSecondary_def keys_mapSet Let_def)

lemma fold_setSecondary_distinct:
  "distinct (map fst m) \<Longrightarrow> distinct (map fst (fold (setSecondary dflt l) qs m))"
  by (induction qs arbitrary: m) (auto simp: setSecondary_def distinct_mapSet Let_def)

lemma fold_setSecondary_keyed: "keyed m \<Longrightarrow> keyed (fold (setSecondary dflt l) qs m)"
  by (induction qs arbitrary: m) (auto simp: keyed_setSecondary)

lemma fold_setSecondary_other:
  "d \<notin> fst ` set qs \<Longrightarrow> map_of (fold (setSecondary dflt l) qs m) d = map_of m d"
  by (induction qs arbitrary: m) (auto simp: setSecondary_def map_of_mapSet Let_def)

lemma fold_setSecondary_at:
  "distinct (map fst qs) \<Longrightarrow> q \<in> set qs
     \<Longrightarrow> map_of (fold (setSecondary dflt l) qs m) (fst q)
           = Some (withSecondary l q (case map_of m (fst q) of Some e \<Rightarrow> e | None \<Rightarrow> blankRow dflt q))"
proof (induction qs arbitrary: m)
  case Nil
  then show ?case by simp
next
  case (Cons x qs)
  show ?case
  proof (cases "q = x")
    case True
    then have "fst x \<notin> fst ` set qs" using Cons.prems(1) by auto
    then have "map_of (fold (setSecondary dflt l) qs (setSecondary dflt l x m)) (fst x)
                 = map_of (setSecondary dflt l x m) (fst x)"
      by (rule fold_setSecondary_other)
    also have "\<dots> = Some (withSecondary l x
                  (case map_of m (fst x) of Some e \<Rightarrow> e | None \<Rightarrow> blankRow dflt x))"
      by (simp add: setSecondary_def map_of_mapSet Let_def)
    finally show ?thesis
      unfolding True by simp
  next
    case False
    then have q: "q \<in> set qs" and ne: "fst q \<noteq> fst x"
      using Cons.prems by (auto simp: image_iff)
    have "map_of (setSecondary dflt l x m) (fst q) = map_of m (fst q)"
      using ne by (simp add: setSecondary_def map_of_mapSet Let_def)
    then show ?thesis
      using Cons.IH[OF _ q, of "setSecondary dflt l x m"] Cons.prems(1) by simp
  qed
qed

lemma joinMap_keys: "fst ` set (joinMap dflt l1 l2 ps qs) = fst ` set ps \<union> fst ` set qs"
  by (simp add: joinMap_def fold_setSecondary_keys fold_setPrimary_keys)

lemma joinMap_distinct: "distinct (map fst (joinMap dflt l1 l2 ps qs))"
  by (simp add: joinMap_def fold_setSecondary_distinct fold_setPrimary_distinct)

lemma joinMap_keyed: "keyed (joinMap dflt l1 l2 ps qs)"
  unfolding joinMap_def
  by (intro fold_setSecondary_keyed fold_setPrimary_keyed) (simp add: keyed_def)

lemma joinMap_dates: "map c_ds (map snd (joinMap dflt l1 l2 ps qs)) = map fst (joinMap dflt l1 l2 ps qs)"
  using joinMap_keyed[of dflt l1 l2 ps qs] by (simp add: keyed_def)

lemma joinMap_primary:
  assumes "distinct (map fst ps)" and "distinct (map fst qs)" and p: "p \<in> set ps"
  shows "\<exists>row. map_of (joinMap dflt l1 l2 ps qs) (fst p) = Some row
           \<and> primary_mobility row = Some (fst (snd p)) \<and> primary_stay row = Some (snd (snd p))"
proof -
  have p0: "map_of (fold (setPrimary l1) ps []) (fst p) = Some (primaryRow l1 p)"
    using assms(1) p by (rule fold_setPrimary_at)
  show ?thesis
  proof (cases "fst p \<in> fst ` set qs")
    case True
    then obtain q where q: "q \<in> set qs" "fst q = fst p" by auto
    have "map_of (joinMap dflt l1 l2 ps qs) (fst q)
            = Some (withSecondary l2 q
                (case map_of (fold (setPrimary l1) ps []) (fst q) of
                   Some e \<Rightarrow> e | None \<Rightarrow> blankRow dflt q))"
      unfolding joinMap_def by (rule fold_setSecondary_at[OF assms(2) q(1)])
    then have "map_of (joinMap dflt l1 l2 ps qs) (fst p) = Some (withSecondary l2 q (primaryRow l1 p))"
      unfolding q(2) p0 by simp
    then show ?thesis
      by (simp add: withSecondary_def primaryRow_def)
  next
    case False
    then have "map_of (joinMap dflt l1 l2 ps qs) (fst p) = Some (primaryRow l1 p)"
      unfolding joinMap_def by (simp add: fold_setSecondary_other p0)
    then show ?thesis by (simp add: primaryRow_def)
  qed
qed

lemma joinMap_secondary:
  assumes "distinct (map fst qs)" and q: "q \<in> set qs"
  shows "\<exists>row. map_of (joinMap dflt l1 l2 ps qs) (fst q) = Some row
           \<and> secondary_mobility row = Some (fst (snd q)) \<and> secondary_stay row = Some (snd (snd q))"
  unfolding joinMap_def fold_setSecondary_at[OF assms]
  by (simp add: withSecondary_def)

lemma joinMap_secondary_only:
  assumes "distinct (map fst qs)" and row: "map_of (joinMap dflt l1 l2 ps qs) d = Some row"
    and d: "d \<notin> fst ` set ps"
  shows "primary_mobility row = None \<and> primary_stay row = None"
proof -
  have "d \<in> fst ` set (joinMap dflt l1 l2 ps qs)"
    using row by (metis domI dom_map_of_conv_image_fst)
  then have "d \<in> fst ` set qs" using d by (simp add: joinMap_keys)
  then obtain q where q: "q \<in> set qs" "fst q = d" by auto
  have "fst q \<notin> fst ` set (fold (setPrimary l1) ps [])"
    using d q(2) by (simp add: fold_setPrimary_keys)
  then have none: "map_of (fold (setPrimary l1) ps []) (fst q) = None"
    by (simp add: map_of_eq_None_iff)
  have "map_of (joinMap dflt l1 l2 ps qs) (fst q) = Some (withSecondary l2 q (blankRow dflt q))"
    unfolding joinMap_def fold_setSecondary_at[OF assms(1) q(1)] none by simp
  then have "row = withSecondary l2 q (blankRow dflt q)"
    using row q(2) by simp
  then show ?thesis by (simp add: withSecondary_def blankRow_def)
qed

lemma joinMap_merged:
  assumes dp: "distinct (map fst ps)" and dq: "distinct (map fst qs)"
  shows "mergedRows getTime ps qs
           (arraySort (\<lambda>a b. dateCmp getTime (c_ds a) (c_ds b)) (map snd (joinMap dflt l1 l2 ps qs)))"
proof -
  let ?D = "joinMap dflt l1 l2 ps qs"
  let ?out = "arraySort (\<lambda>a b. dateCmp getTime (c_ds a) (c_ds b)) (map snd ?D)"
  have so: "set ?out = snd ` set ?D" by (simp add: set_arraySort)
  have "mset (map c_ds ?out) = image_mset c_ds (mset (map snd ?D))"
    by (simp add: mset_arraySort)
  also have "\<dots> = mset (map c_ds (map snd ?D))" by (simp only: mset_map)
  finally have mo: "mset (map c_ds ?out) = mset (map fst ?D)"
    unfolding joinMap_dates .
  have d1: "distinct (map c_ds ?out)"
    using joinMap_distinct[of dflt l1 l2 ps qs] mset_eq_imp_distinct_iff[OF mo] by simp
  have "set (map c_ds ?out) = set (map fst ?D)"
    using mo by (rule mset_eq_setD)
  then have s1: "set (map c_ds ?out) = fst ` set ps \<union> fst ` set qs"
    using joinMap_keys[of dflt l1 l2 ps qs] by simp
  have "length ?out = length (map c_ds ?out)" by simp
  also have "\<dots> = card (set (map c_ds ?out))" using d1 by (rule distinct_card[symmetric])
  finally have l1: "length ?out = card (fst ` set ps \<union> fst ` set qs)" unfolding s1 .
  have inout: "row \<in> set ?out \<and> c_ds row = d" if "map_of ?D d = Some row" for row d
  proof -
    have "(d, row) \<in> set ?D" using that by (rule map_of_SomeD)
    then show ?thesis
      unfolding so using joinMap_keyed[of dflt l1 l2 ps qs] by (force simp: keyed_def)
  qed
  have a1: "\<forall>p\<in>set ps. \<exists>row\<in>set ?out. c_ds row = fst p
            \<and> primary_mobility row = Some (fst (snd p)) \<and> primary_stay row = Some (snd (snd p))"
    using joinMap_primary[OF dp dq, of _ dflt l1 l2] inout by blast
  have b1: "\<forall>q\<in>set qs. \<exists>row\<in>set ?out. c_ds row = fst q
            \<and> secondary_mobility row = Some (fst (snd q)) \<and> secondary_stay row = Some (snd (snd q))"
    using joinMap_secondary[OF dq, of _ dflt l1 l2 ps] inout by blast
  have c1: "\<forall>row\<in>set ?out. c_ds row \<notin> fst ` set ps
            \<longrightarrow> primary_mobility row = None \<and> primary_stay row = None"
  proof (intro ballI impI)
    fix row assume r: "row \<in> set ?out" and n: "c_ds row \<notin> fst ` set ps"
    then obtain e where e: "e \<in> set ?D" "snd e = row" unfolding so by auto
    then have "fst e = c_ds row" using joinMap_keyed[of dflt l1 l2 ps qs] by (auto simp: keyed_def)
    then have "map_of ?D (c_ds row) = Some row"
      using e joinMap_distinct[of dflt l1 l2 ps qs] by (metis map_of_is_SomeI prod.collapse)
    then show "primary_mobility row = None \<and> primary_stay row = None"
      using n by (rule joinMap_secondary_only[OF dq])
  qed
  have e1: "sorted (map (\<lambda>row. timeOf getTime (c_ds row)) ?out)"
    if parse: "\<forall>d\<in>fst ` set ps \<union> fst ` set qs. getTime d \<noteq> None"
  proof (rule sorted_arraySort_by_date, rule ballI)
    fix x assume "x \<in> set (map snd ?D)"
    then have "c_ds x \<in> set (map c_ds (map snd ?D))" by (metis imageI list.set_map)
    then have "c_ds x \<in> fst ` set ps \<union> fst ` set qs"
      unfolding joinMap_dates using joinMap_keys[of dflt l1 l2 ps qs] by simp
    then show "getTime (c_ds x) \<noteq> None" using parse by blast
  qed
  show ?thesis
    unfolding mergedRows_def using d1 s1 l1 a1 b1 c1 e1 by blast
qed

lemma comparisonChartData_join:
  "comparisonChartData getTime a b True sr sc sr2 sc2
     = arraySort (\<lambda>x y. dateCmp getTime (c_ds x) (c_ds y))
         (map snd (joinMap None
            (if sr = WHOLE_COUNTRY_OPTION then sc @ '' (Avg)'' else sr)
            (if sr2 = WHOLE_COUNTRY_OPTION then sc2 @ '' (Avg)'' else sr2)
            (map seriesPoint a) (map seriesPoint b)))"
  by (cases b) (simp_all add: comparisonChartData_def joinMap_def fold_map comp_def Let_def)

lemma countryComparisonChartData_join:
  "countryComparisonChartData getTime (Some d1) (Some d2) True cv cv2 ct cr
     = arraySort (\<lambda>x y. dateCmp getTime (c_ds x) (c_ds y))
         (map snd (joinMap (Some cv) cv (if ct = CompareCountry then cv2 else cr)
            (map trendPoint (trend d1)) (map trendPoint (trend d2))))"
  by (simp add: countryComparisonChartData_def joinMap_def fold_map comp_def Let_def)

lemma trend_dates_distinct:
  assumes "calculateCountryAggregates getTime data c = Some agg"
  shows "distinct (map t_ds (trend agg))"
proof -
  let ?raw = "filter (\<lambda>d. country d = c) data"
  have c: "c \<noteq> []" and raw: "?raw \<noteq> []"
    using assms calculateCountryAggregates_None[of getTime data c] by auto
  have tr: "trend agg = arraySort (\<lambda>a b. dateCmp getTime (t_ds a) (t_ds b))
                    (map finalizeTrend (dateMapOf ?raw))"
    using assms unfolding calculateCountryAggregates_Some[OF c raw] by auto
  have e: "map t_ds (map finalizeTrend (dateMapOf ?raw)) = map fst (dateMapOf ?raw)"
    by (simp add: finalizeTrend_def)
  have "mset (map t_ds (trend agg)) = image_mset t_ds (mset (map finalizeTrend (dateMapOf ?raw)))"
    unfolding tr by (simp add: mset_arraySort)
  also have "\<dots> = mset (map t_ds (map finalizeTrend (dateMapOf ?raw)))"
    by (simp only: mset_map)
  finally have "mset (map t_ds (trend agg)) = mset (map fst (dateMapOf ?raw))"
    unfolding e .
  then show ?thesis
    using distinct_dateMapOf[of ?raw] mset_eq_imp_distinct_iff by blast
qed

section \<open>Claims\<close>

text \<open>
  C1. For every country \<open>c\<close> with at least one matching record, \<open>calculateCountryAggregates\<close>
  returns an aggregate (not null) whose matrix holds exactly one row per distinct region
  name among the country's records: the names of the matrix rows are pairwise distinct and
  are exactly the \<open>polygon_name\<close>s of the country's rows, and the length of the matrix equals
  \<open>totalRegions\<close>, which equals the number of distinct region names. The country identifier is
  non-empty, as the record store guarantees.
\<close>

theorem matrix_one_entry_per_region:
  assumes "c \<noteq> []" and "filter (\<lambda>d. country d = c) data \<noteq> []"
  shows "\<exists>agg. calculateCountryAggregates getTime data c = Some agg
           \<and> distinct (map name (matrix agg))
           \<and> set (map name (matrix agg)) = polygon_name ` set (filter (\<lambda>d. country d = c) data)
           \<and> length (matrix agg) = totalRegions agg
           \<and> totalRegions agg = card (polygon_name ` set (filter (\<lambda>d. country d = c) data))"
proof -
  let ?raw = "filter (\<lambda>d. country d = c) data"
  let ?m = "map (\<lambda>e. finalizeMatrix (snd e)) (regionMapOf ?raw)"
  have names: "map name ?m = map fst (regionMapOf ?raw)"
    using name_matrix_entry[of ?raw] by (simp add: comp_def)
  have d: "distinct (map name ?m)"
    unfolding names by (rule distinct_regionMapOf)
  have s: "set (map name ?m) = polygon_name ` set ?raw"
    unfolding names using keys_regionMapOf[of ?raw] by simp
  have "length (regionMapOf ?raw) = length (map name ?m)" by simp
  also have "\<dots> = card (set (map name ?m))"
    using d by (rule distinct_card[symmetric])
  finally have l: "length (regionMapOf ?raw) = card (polygon_name ` set ?raw)"
    unfolding s .
  have "length ?m = length (regionMapOf ?raw)" by simp
  then show ?thesis
    unfolding calculateCountryAggregates_Some[OF assms]
    using d s l by (intro exI[of _ "\<lparr>trend = _, matrix = ?m, totalRegions = length (regionMapOf ?raw)\<rparr>"]) simp
qed

theorem matrix_one_entry_per_region_witness:
  "''X'' \<noteq> [] \<and> filter (\<lambda>d. country d = ''X'') exampleData \<noteq> []
   \<and> (\<exists>agg. calculateCountryAggregates isoDateTime exampleData ''X'' = Some agg
          \<and> distinct (map name (matrix agg))
          \<and> set (map name (matrix agg)) = {''A'', ''B''}
          \<and> length (matrix agg) = totalRegions agg
          \<and> totalRegions agg = 2)"
proof -
  have h1: "''X'' \<noteq> []" by simp
  have h2: "filter (\<lambda>d. country d = ''X'') exampleData \<noteq> []"
    by (simp add: exampleData_def mkRecord_def)
  have names: "polygon_name ` set (filter (\<lambda>d. country d = ''X'') exampleData) = {''A'', ''B''}"
    by (simp add: exampleData_def mkRecord_def)
  have two: "card {''A'', ''B''} = 2" by simp
  show ?thesis
    using h1 h2 matrix_one_entry_per_region[OF h1 h2, of isoDateTime]
    unfolding names two by simp
qed

text \<open>
  C2. For every country \<open>c\<close> with at least one matching record, the sum over the matrix
  rows of \<open>avgMobility\<close> times \<open>dataPoints\<close> and the sum over the trend entries of
  \<open>avgMobility\<close> times the number of the country's rows on that date both equal the total of
  the mobility change over all of the country's rows (exact arithmetic).
\<close>

theorem aggregate_sums_agree:
  assumes "c \<noteq> []" and "filter (\<lambda>d. country d = c) data \<noteq> []"
  shows "\<exists>agg. calculateCountryAggregates getTime data c = Some agg
           \<and> (\<Sum>e\<leftarrow>matrix agg. avgMobility e * of_nat (dataPoints e))
               = (\<Sum>r\<leftarrow>filter (\<lambda>d. country d = c) data. all_day_bing_tiles_visited_relative_change r)
           \<and> (\<Sum>t\<leftarrow>trend agg. t_avgMobility t
                  * of_nat (length (filter (\<lambda>r. ds r = t_ds t) (filter (\<lambda>d. country d = c) data))))
               = (\<Sum>r\<leftarrow>filter (\<lambda>d. country d = c) data. all_day_bing_tiles_visited_relative_change r)"
  unfolding calculateCountryAggregates_Some[OF assms]
  using matrix_weighted_sum[of "filter (\<lambda>d. country d = c) data"]
    trend_weighted_sum[of "filter (\<lambda>d. country d = c) data"]
  by simp

theorem aggregate_sums_agree_witness:
  "''X'' \<noteq> [] \<and> filter (\<lambda>d. country d = ''X'') exampleData \<noteq> []
   \<and> (\<exists>agg. calculateCountryAggregates isoDateTime exampleData ''X'' = Some agg
          \<and> (\<Sum>e\<leftarrow>matrix agg. avgMobility e * of_nat (dataPoints e)) = - 3 / 5
          \<and> (\<Sum>t\<leftarrow>trend agg. t_avgMobility t
                 * of_nat (length (filter (\<lambda>r. ds r = t_ds t) (filter (\<lambda>d. country d = ''X'') exampleData))))
              = - 3 / 5)"
proof -
  have h1: "''X'' \<noteq> []" by simp
  have h2: "filter (\<lambda>d. country d = ''X'') exampleData \<noteq> []"
    by (simp add: exampleData_def mkRecord_def)
  have total: "(\<Sum>r\<leftarrow>filter (\<lambda>d. country d = ''X'') exampleData. all_day_bing_tiles_visited_relative_change r) = - 3 / 5"
    by (simp add: exampleData_def mkRecord_def)
  show ?thesis
    using h1 h2 aggregate_sums_agree[OF h1 h2, of isoDateTime]
    unfolding total by simp
qed

text \<open>
  C3. For every country \<open>c\<close> the two aggregation paths agree: the region-as-aggregate
  adapter applied to the whole-country series of \<open>c\<close>, and the country aggregator applied to
  \<open>c\<close>, have the same trend (the same dates in the same order with the same two averages),
  and either both are null, which is also when the series is empty, namely when \<open>c\<close> is
  empty or has no record.
\<close>

theorem aggregation_paths_agree:
  "map_option trend
     (calculateRegionAsAggregate (getNormalizedSeries getTime data c WHOLE_COUNTRY_OPTION) c)
     = map_option trend (calculateCountryAggregates getTime data c)
   \<and> (calculateRegionAsAggregate (getNormalizedSeries getTime data c WHOLE_COUNTRY_OPTION) c = None
        \<longleftrightarrow> calculateCountryAggregates getTime data c = None)
   \<and> (getNormalizedSeries getTime data c WHOLE_COUNTRY_OPTION = []
        \<longleftrightarrow> calculateCountryAggregates getTime data c = None)
   \<and> (calculateCountryAggregates getTime data c = None
        \<longleftrightarrow> c = [] \<or> filter (\<lambda>d. country d = c) data = [])"
proof (cases "c = [] \<or> filter (\<lambda>d. country d = c) data = []")
  case True
  then have n: "calculateCountryAggregates getTime data c = None"
    by (simp add: calculateCountryAggregates_None)
  have "getNormalizedSeries getTime data c WHOLE_COUNTRY_OPTION = []"
    using n by (simp add: getNormalizedSeries_def)
  then show ?thesis
    using n True by (simp add: calculateRegionAsAggregate_def)
next
  case False
  let ?raw = "filter (\<lambda>d. country d = c) data"
  let ?tr = "arraySort (\<lambda>a b. dateCmp getTime (t_ds a) (t_ds b)) (map finalizeTrend (dateMapOf ?raw))"
  have c: "c \<noteq> []" and raw: "?raw \<noteq> []" using False by simp_all
  note s = calculateCountryAggregates_Some[OF c raw, of getTime]
  have tr: "?tr \<noteq> []"
    using dateMapOf_nonempty[OF raw] length_arraySort[of _ "map finalizeTrend (dateMapOf ?raw)"]
    by (metis length_0_conv length_map)
  have ser: "getNormalizedSeries getTime data c WHOLE_COUNTRY_OPTION
               = map (\<lambda>t. \<lparr>n_ds = t_ds t, mobility = t_avgMobility t, stay = t_avgStay t,
                                n_baseline_type = Some ''AVERAGE''\<rparr>) ?tr"
    using c by (simp add: getNormalizedSeries_def s WHOLE_COUNTRY_OPTION_nonempty)
  have ser_ne: "getNormalizedSeries getTime data c WHOLE_COUNTRY_OPTION \<noteq> []"
    unfolding ser using tr by simp
  have "map_option trend
          (calculateRegionAsAggregate (getNormalizedSeries getTime data c WHOLE_COUNTRY_OPTION) c)
          = Some (map (\<lambda>d. \<lparr>t_ds = n_ds d, t_avgMobility = mobility d, t_avgStay = stay d\<rparr>)
                    (getNormalizedSeries getTime data c WHOLE_COUNTRY_OPTION))"
    using ser_ne by (simp add: calculateRegionAsAggregate_def Let_def)
  also have "\<dots> = Some ?tr"
    by (simp only: ser trend_roundtrip)
  finally have "map_option trend
          (calculateRegionAsAggregate (getNormalizedSeries getTime data c WHOLE_COUNTRY_OPTION) c)
          = Some ?tr" .
  then show ?thesis
    using s ser_ne False by auto
qed

theorem aggregation_paths_agree_witness:
  "map_option trend
     (calculateRegionAsAggregate (getNormalizedSeries isoDateTime exampleData ''X'' WHOLE_COUNTRY_OPTION) ''X'')
     = Some [\<lparr>t_ds = ''2020-01-01'', t_avgMobility = - 1 / 10, t_avgStay = 2 / 5\<rparr>,
             \<lparr>t_ds = ''2020-01-02'', t_avgMobility = - 2 / 5, t_avgStay = 7 / 10\<rparr>]
   \<and> calculateRegionAsAggregate (getNormalizedSeries isoDateTime exampleData ''Z'' WHOLE_COUNTRY_OPTION) ''Z'' = None"
proof -
  have x: "map_option trend (calculateCountryAggregates isoDateTime exampleData ''X'')
             = Some [\<lparr>t_ds = ''2020-01-01'', t_avgMobility = - 1 / 10, t_avgStay = 2 / 5\<rparr>,
                     \<lparr>t_ds = ''2020-01-02'', t_avgMobility = - 2 / 5, t_avgStay = 7 / 10\<rparr>]"
    by code_simp
  have z: "filter (\<lambda>d. country d = ''Z'') exampleData = []"
    by (simp add: exampleData_def mkRecord_def)
  show ?thesis
    using aggregation_paths_agree[of isoDateTime exampleData "''X''"]
      aggregation_paths_agree[of isoDateTime exampleData "''Z''"] x z
    by simp
qed

text \<open>
  C4. For every pair of series \<open>a\<close> and \<open>b\<close> whose dates are distinct within each series,
  the join (in compare mode) has exactly one row per date of \<open>a\<close> or \<open>b\<close>, as many rows as
  there are such dates; every element of \<open>a\<close> has a row of its date with its own two values
  (\<open>mobility\<close> and \<open>stay\<close>; for the trend of an aggregate \<open>avgMobility\<close> and \<open>avgStay\<close>) as
  non-null primary values, every element of \<open>b\<close> a row of its date with its own two values
  as secondary values; a row whose date is only in \<open>b\<close> has \<open>primary_mobility\<close> and
  \<open>primary_stay\<close> null; and the rows are sorted ascending by date when the dates parse.
  This holds for \<open>comparisonChartData\<close> on two normalized series and for
  \<open>countryComparisonChartData\<close> on the trends of two aggregates.
\<close>

theorem merge_is_outer_join:
  assumes "distinct (map n_ds a)" and "distinct (map n_ds b)"
    and "distinct (map t_ds (trend d1))" and "distinct (map t_ds (trend d2))"
  shows "mergedRows getTime (map (\<lambda>p. (n_ds p, mobility p, stay p)) a)
           (map (\<lambda>p. (n_ds p, mobility p, stay p)) b)
           (comparisonChartData getTime a b True sr sc sr2 sc2)
         \<and> mergedRows getTime (map (\<lambda>t. (t_ds t, t_avgMobility t, t_avgStay t)) (trend d1))
           (map (\<lambda>t. (t_ds t, t_avgMobility t, t_avgStay t)) (trend d2))
           (countryComparisonChartData getTime (Some d1) (Some d2) True cv cv2 ct cr)"
proof -
  have sp: "(\<lambda>p. (n_ds p, mobility p, stay p)) = seriesPoint"
    and tp: "(\<lambda>t. (t_ds t, t_avgMobility t, t_avgStay t)) = trendPoint"
    by (simp_all add: fun_eq_iff seriesPoint_def trendPoint_def)
  have "map fst (map seriesPoint a) = map n_ds a" "map fst (map seriesPoint b) = map n_ds b"
    "map fst (map trendPoint (trend d1)) = map t_ds (trend d1)"
    "map fst (map trendPoint (trend d2)) = map t_ds (trend d2)"
    by (simp_all add: seriesPoint_def trendPoint_def)
  then have "distinct (map fst (map seriesPoint a))" "distinct (map fst (map seriesPoint b))"
    "distinct (map fst (map trendPoint (trend d1)))" "distinct (map fst (map trendPoint (trend d2)))"
    using assms by (simp_all only:)
  then show ?thesis
    unfolding sp tp comparisonChartData_join countryComparisonChartData_join
    by (intro conjI joinMap_merged)
qed

theorem merge_is_outer_join_witness:
  "distinct (map n_ds exampleSeriesB) \<and> distinct (map n_ds exampleSeries)
   \<and> distinct (map t_ds (trend exampleAggregate)) \<and> distinct (map t_ds (trend exampleAggregate2))
   \<and> comparisonChartData isoDateTime exampleSeriesB exampleSeries True ''B'' ''X'' ''A'' ''X''
       = [\<lparr>c_ds = ''2020-01-01'', primary_mobility = Some 0, primary_stay = Some (3 / 10),
           primary_label = Some ''B'', secondary_mobility = Some (- 1 / 5),
           secondary_stay = Some (1 / 2), secondary_label = Some ''A''\<rparr>,
          \<lparr>c_ds = ''2020-01-02'', primary_mobility = None, primary_stay = None,
           primary_label = None, secondary_mobility = Some (- 2 / 5),
           secondary_stay = Some (7 / 10), secondary_label = Some ''A''\<rparr>]
   \<and> countryComparisonChartData isoDateTime (Some exampleAggregate) (Some exampleAggregate2)
         True ''X'' ''Y'' CompareCountry ''A''
       = [\<lparr>c_ds = ''2020-01-01'', primary_mobility = Some (- 1 / 10), primary_stay = Some (2 / 5),
           primary_label = Some ''X'', secondary_mobility = Some (1 / 10),
           secondary_stay = Some (1 / 5), secondary_label = Some ''Y''\<rparr>,
          \<lparr>c_ds = ''2020-01-02'', primary_mobility = None, primary_stay = None,
           primary_label = Some ''X'', secondary_mobility = Some (1 / 5),
           secondary_stay = Some (1 / 4), secondary_label = Some ''Y''\<rparr>]
   \<and> length (countryComparisonChartData isoDateTime (Some exampleAggregate)
            (Some exampleAggregate2) True ''X'' ''Y'' CompareCountry ''A'') = 2"
proof -
  let ?out = "countryComparisonChartData isoDateTime (Some exampleAggregate)
            (Some exampleAggregate2) True ''X'' ''Y'' CompareCountry ''A''"
  have h1: "distinct (map n_ds exampleSeriesB)" and h2: "distinct (map n_ds exampleSeries)"
    and h3: "distinct (map t_ds (trend exampleAggregate))"
    and h4: "distinct (map t_ds (trend exampleAggregate2))"
    by (simp_all add: exampleSeriesB_def exampleSeries_def exampleAggregate_def exampleAggregate2_def)
  have v: "comparisonChartData isoDateTime exampleSeriesB exampleSeries True ''B'' ''X'' ''A'' ''X''
       = [\<lparr>c_ds = ''2020-01-01'', primary_mobility = Some 0, primary_stay = Some (3 / 10),
           primary_label = Some ''B'', secondary_mobility = Some (- 1 / 5),
           secondary_stay = Some (1 / 2), secondary_label = Some ''A''\<rparr>,
          \<lparr>c_ds = ''2020-01-02'', primary_mobility = None, primary_stay = None,
           primary_label = None, secondary_mobility = Some (- 2 / 5),
           secondary_stay = Some (7 / 10), secondary_label = Some ''A''\<rparr>]"
    by code_simp
  have w: "?out
       = [\<lparr>c_ds = ''2020-01-01'', primary_mobility = Some (- 1 / 10), primary_stay = Some (2 / 5),
           primary_label = Some ''X'', secondary_mobility = Some (1 / 10),
           secondary_stay = Some (1 / 5), secondary_label = Some ''Y''\<rparr>,
          \<lparr>c_ds = ''2020-01-02'', primary_mobility = None, primary_stay = None,
           primary_label = Some ''X'', secondary_mobility = Some (1 / 5),
           secondary_stay = Some (1 / 4), secondary_label = Some ''Y''\<rparr>]"
    by code_simp
  have dates: "fst ` set (map (\<lambda>t. (t_ds t, t_avgMobility t, t_avgStay t)) (trend exampleAggregate))
                 \<union> fst ` set (map (\<lambda>t. (t_ds t, t_avgMobility t, t_avgStay t)) (trend exampleAggregate2))
               = {''2020-01-01'', ''2020-01-02''}"
    by (auto simp: exampleAggregate_def exampleAggregate2_def)
  have two: "card {''2020-01-01'', ''2020-01-02''} = 2" by simp
  have "mergedRows isoDateTime (map (\<lambda>t. (t_ds t, t_avgMobility t, t_avgStay t)) (trend exampleAggregate))
          (map (\<lambda>t. (t_ds t, t_avgMobility t, t_avgStay t)) (trend exampleAggregate2)) ?out"
    using merge_is_outer_join[OF h1 h2 h3 h4, of isoDateTime "''B''" "''X''" "''A''" "''X''" "''X''" "''Y''" CompareCountry "''A''"]
    by (rule conjunct2)
  then have "length ?out = 2"
    unfolding mergedRows_def dates two by blast
  then show ?thesis
    using h1 h2 h3 h4 v w by blast
qed



text \<open>
  C6. For every non-empty country and every non-empty region selector other than the
  whole-country sentinel, \<open>getNormalizedSeries\<close> returns exactly the records matching both
  the country and the region (with their multiplicities), each mapped to its point with the
  field values unchanged. When the dates of these records parse, the result is the stable
  sort of the matching records by time, mapped, and so is sorted ascending by date.
\<close>

theorem normalized_region_series:
  assumes "c \<noteq> []" and "r \<noteq> []" and "r \<noteq> WHOLE_COUNTRY_OPTION"
  shows "mset (getNormalizedSeries getTime data c r) = image_mset toPoint (mset (regionRows data c r))
         \<and> ((\<forall>d\<in>set (regionRows data c r). getTime (ds d) \<noteq> None) \<longrightarrow>
              getNormalizedSeries getTime data c r
                = map toPoint (sort_key (\<lambda>d. timeOf getTime (ds d)) (regionRows data c r))
              \<and> sorted (map (\<lambda>p. timeOf getTime (n_ds p)) (getNormalizedSeries getTime data c r)))"
proof -
  have s: "getNormalizedSeries getTime data c r
             = map toPoint (arraySort (\<lambda>a b. dateCmp getTime (ds a) (ds b)) (regionRows data c r))"
    using assms by (rule getNormalizedSeries_region)
  have m: "mset (getNormalizedSeries getTime data c r) = image_mset toPoint (mset (regionRows data c r))"
    unfolding s by (simp add: mset_arraySort)
  have k: "(\<lambda>p. timeOf getTime (n_ds p)) \<circ> toPoint = (\<lambda>d. timeOf getTime (ds d))"
    by (simp add: fun_eq_iff toPoint_def)
  {
    assume p: "\<forall>d\<in>set (regionRows data c r). getTime (ds d) \<noteq> None"
    have e: "getNormalizedSeries getTime data c r
                = map toPoint (sort_key (\<lambda>d. timeOf getTime (ds d)) (regionRows data c r))"
      unfolding s arraySort_by_date[OF p] ..
    have "sorted (map (\<lambda>p. timeOf getTime (n_ds p)) (getNormalizedSeries getTime data c r))"
      unfolding e map_map k by (rule sorted_sort_key)
    note e this
  }
  then show ?thesis using m by blast
qed

theorem normalized_region_series_witness:
  "''X'' \<noteq> [] \<and> ''A'' \<noteq> [] \<and> ''A'' \<noteq> WHOLE_COUNTRY_OPTION
   \<and> getNormalizedSeries isoDateTime exampleData ''X'' ''A''
       = [\<lparr>n_ds = ''2020-01-01'', mobility = - 1 / 5, stay = 1 / 2, n_baseline_type = Some ''DAY_OF_WEEK''\<rparr>,
          \<lparr>n_ds = ''2020-01-02'', mobility = - 2 / 5, stay = 7 / 10, n_baseline_type = Some ''DAY_OF_WEEK''\<rparr>]
   \<and> sorted (map (\<lambda>p. timeOf isoDateTime (n_ds p)) (getNormalizedSeries isoDateTime exampleData ''X'' ''A''))"
proof -
  have h1: "''X'' \<noteq> []" and h2: "''A'' \<noteq> []" and h3: "''A'' \<noteq> WHOLE_COUNTRY_OPTION"
    by (simp_all add: WHOLE_COUNTRY_OPTION_def)
  have rows: "regionRows exampleData ''X'' ''A''
                = [mkRecord ''2020-01-02'' ''X'' ''A'' (- 4 / 10) (7 / 10),
                   mkRecord ''2020-01-01'' ''X'' ''A'' (- 2 / 10) (5 / 10)]"
    by (simp add: regionRows_def exampleData_def mkRecord_def)
  have t1: "isoDateTime ''2020-01-01'' = Some 1577836800000"
    and t2: "isoDateTime ''2020-01-02'' = Some 1577923200000"
    by code_simp+
  have parse: "\<forall>d\<in>set (regionRows exampleData ''X'' ''A''). isoDateTime (ds d) \<noteq> None"
    unfolding rows by (simp add: mkRecord_def t1 t2)
  have sorted_rows: "map toPoint (sort_key (\<lambda>d. timeOf isoDateTime (ds d)) (regionRows exampleData ''X'' ''A''))
      = [\<lparr>n_ds = ''2020-01-01'', mobility = - 1 / 5, stay = 1 / 2, n_baseline_type = Some ''DAY_OF_WEEK''\<rparr>,
          \<lparr>n_ds = ''2020-01-02'', mobility = - 2 / 5, stay = 7 / 10, n_baseline_type = Some ''DAY_OF_WEEK''\<rparr>]"
    unfolding rows by (simp add: mkRecord_def timeOf_def t1 t2 toPoint_def)
  show ?thesis
    using h1 h2 h3 normalized_region_series[OF h1 h2 h3, of isoDateTime exampleData] parse
    unfolding sorted_rows by (simp add: timeOf_def t1 t2)
qed

text \<open>
  C7. For every non-empty series, and whatever the rounding \<open>fl\<close> of the arithmetic,
  \<open>calculateStats\<close> returns a result (not null) whose \<open>count\<close> is the length of the series,
  whose \<open>start\<close> and \<open>end\<close> are the dates of the first and of the last element (whatever
  the order of the series), whose \<open>maxStayHome\<close> is a string denoting, rounded to one
  decimal, the maximum stay value times 100, and whose \<open>avgMobility\<close> is a string denoting,
  rounded to one decimal, the mean of the mobility values times 100; the numbers printed
  are the results of the source's operations, each rounded by \<open>fl\<close>: the additions of the
  sum from 0, the division by the length and the product with 100. In exact arithmetic
  they are the maximum times 100 and the sum divided by the length times 100.
\<close>

theorem stats_of_series:
  assumes "dataset \<noteq> []"
  shows "(\<exists>s. calculateStats fl dataset = Inr (Some s)
            \<and> s_count s = length dataset
            \<and> s_start s = n_ds (hd dataset)
            \<and> s_end s = n_ds (last dataset)
            \<and> printsTenth (s_maxStayHome s) (fl (Max (stay ` set dataset) * 100))
            \<and> printsTenth (s_avgMobility s)
                 (fl (fl (foldl (\<lambda>a b. fl (a + b)) 0 (map mobility dataset)
                          / of_nat (length dataset)) * 100)))
         \<and> (\<exists>s. calculateStats (\<lambda>x. x) dataset = Inr (Some s)
            \<and> printsTenth (s_maxStayHome s) (Max (stay ` set dataset) * 100)
            \<and> printsTenth (s_avgMobility s)
                 (sum_list (map mobility dataset) / of_nat (length dataset) * 100))"
  using assms
  by (simp add: calculateStats_def dsAt_def Let_def mathMax_Max foldl_plus hd_conv_nth
      last_conv_nth printsTenth_toFixed1)

theorem stats_of_series_witness:
  "roundingSeries \<noteq> []
   \<and> calculateStats roundDouble roundingSeries
       = Inr (Some \<lparr>s_avgMobility = Fixed ''0.1'', s_maxStayHome = Fixed ''29.9'', s_count = 1,
                     s_start = ''2020-01-01'', s_end = ''2020-01-01''\<rparr>)
   \<and> printsTenth (Fixed ''29.9'') (roundDouble (Max (stay ` set roundingSeries) * 100))
   \<and> printsTenth (Fixed ''0.1'')
        (roundDouble (roundDouble (foldl (\<lambda>a b. roundDouble (a + b)) 0 (map mobility roundingSeries)
                                   / of_nat (length roundingSeries)) * 100))
   \<and> \<not> printsTenth (Fixed ''30.0'') (roundDouble (Max (stay ` set roundingSeries) * 100))
   \<and> calculateStats (\<lambda>x. x) exampleSeries
       = Inr (Some \<lparr>s_avgMobility = Fixed ''-30.0'', s_maxStayHome = Fixed ''70.0'', s_count = 2,
                     s_start = ''2020-01-02'', s_end = ''2020-01-01''\<rparr>)
   \<and> printsTenth (Fixed ''-30.0'')
        (sum_list (map mobility exampleSeries) / of_nat (length exampleSeries) * 100)"
proof -
  have h: "roundingSeries \<noteq> []" by (simp add: roundingSeries_def)
  have h': "exampleSeries \<noteq> []" by (simp add: exampleSeries_def)
  have r: "calculateStats roundDouble roundingSeries
       = Inr (Some \<lparr>s_avgMobility = Fixed ''0.1'', s_maxStayHome = Fixed ''29.9'', s_count = 1,
                     s_start = ''2020-01-01'', s_end = ''2020-01-01''\<rparr>)"
    by code_simp
  have e: "calculateStats (\<lambda>x. x) exampleSeries
       = Inr (Some \<lparr>s_avgMobility = Fixed ''-30.0'', s_maxStayHome = Fixed ''70.0'', s_count = 2,
                     s_start = ''2020-01-02'', s_end = ''2020-01-01''\<rparr>)"
    by code_simp
  have n: "\<not> printsTenth (Fixed ''30.0'') (roundDouble (Max (stay ` set roundingSeries) * 100))"
    by code_simp
  obtain s where s: "calculateStats roundDouble roundingSeries = Inr (Some s)"
    "printsTenth (s_maxStayHome s) (roundDouble (Max (stay ` set roundingSeries) * 100))"
    "printsTenth (s_avgMobility s)
        (roundDouble (roundDouble (foldl (\<lambda>a b. roundDouble (a + b)) 0 (map mobility roundingSeries)
                                   / of_nat (length roundingSeries)) * 100))"
    using stats_of_series[OF h, of roundDouble] by blast
  have sel: "s_maxStayHome s = Fixed ''29.9''" "s_avgMobility s = Fixed ''0.1''"
    using s(1) unfolding r by auto
  have p1: "printsTenth (Fixed ''29.9'') (roundDouble (Max (stay ` set roundingSeries) * 100))"
    using s(2) unfolding sel .
  have p2: "printsTenth (Fixed ''0.1'')
        (roundDouble (roundDouble (foldl (\<lambda>a b. roundDouble (a + b)) 0 (map mobility roundingSeries)
                                   / of_nat (length roundingSeries)) * 100))"
    using s(3) unfolding sel .
  obtain t where t: "calculateStats (\<lambda>x. x) exampleSeries = Inr (Some t)"
    "printsTenth (s_avgMobility t)
        (sum_list (map mobility exampleSeries) / of_nat (length exampleSeries) * 100)"
    using stats_of_series[OF h', of "\<lambda>x. x"] by blast
  have sel': "s_avgMobility t = Fixed ''-30.0''"
    using t(1) unfolding e by auto
  have p3: "printsTenth (Fixed ''-30.0'')
        (sum_list (map mobility exampleSeries) / of_nat (length exampleSeries) * 100)"
    using t(2) unfolding sel' .
  show ?thesis
    by (intro conjI h r p1 p2 n e p3)
qed

text \<open>
  C8. No operation of the engine raises. \<open>calculateCountryAggregates\<close> returns null
  exactly when the country is empty or no record matches it; \<open>getNormalizedSeries\<close> returns
  the empty sequence whenever the country or the region selector is empty; \<open>calculateStats\<close>
  of the empty series is null, and on no series do its two indexed reads throw, whatever
  the rounding of its arithmetic. In particular, on the empty record collection the
  aggregate of \<open>X\<close> is null and the series of \<open>X\<close>, \<open>A\<close> is empty.
\<close>

theorem absence_over_exception:
  "(calculateCountryAggregates getTime data c = None
      \<longleftrightarrow> c = [] \<or> filter (\<lambda>d. country d = c) data = [])
   \<and> (c = [] \<or> r = [] \<longrightarrow> getNormalizedSeries getTime data c r = [])
   \<and> calculateStats fl [] = Inr None
   \<and> (\<forall>e. calculateStats fl dataset \<noteq> Inl e)
   \<and> calculateCountryAggregates getTime [] ''X'' = None
   \<and> getNormalizedSeries getTime [] ''X'' ''A'' = []"
  by (simp add: calculateCountryAggregates_None getNormalizedSeries_def calculateStats_def
      dsAt_def Let_def WHOLE_COUNTRY_OPTION_def arraySort_Nil)

theorem absence_over_exception_witness:
  "calculateStats roundDouble exampleSeriesB \<noteq> Inl TypeError
   \<and> calculateCountryAggregates isoDateTime exampleData ''Z'' = None
   \<and> calculateCountryAggregates isoDateTime exampleData [] = None
   \<and> calculateCountryAggregates isoDateTime exampleData ''Y'' \<noteq> None
   \<and> getNormalizedSeries isoDateTime exampleData [] ''A'' = []
   \<and> getNormalizedSeries isoDateTime exampleData ''X'' [] = []"
proof -
  have z: "filter (\<lambda>d. country d = ''Z'') exampleData = []"
    by (simp add: exampleData_def mkRecord_def)
  have y: "filter (\<lambda>d. country d = ''Y'') exampleData \<noteq> []"
    by (simp add: exampleData_def mkRecord_def)
  show ?thesis
    using absence_over_exception[of isoDateTime exampleData "''Z''" "[]"]
      absence_over_exception[of isoDateTime exampleData "[]" "''A''"]
      absence_over_exception[of isoDateTime exampleData "''Y''" "[]"]
      absence_over_exception[of isoDateTime exampleData "''X''" "[]" roundDouble exampleSeriesB]
      z y
    by simp
qed

text \<open>
  C9. For every matrix and every sort key whose values in the matrix contain no
  duplicates, the reverse of the matrix sorted ascending by the key equals the matrix
  sorted descending by the key. The matrix is the one \<open>sortedMatrix\<close> selects, which it
  returns as it is when there is no sort configuration.
\<close>

theorem sort_asc_reversed_is_desc:
  assumes "distinct (map (fieldValue k) (sortedMatrix data1 data2 None tab compareMode))"
  shows "rev (sortedMatrix data1 data2 (Some \<lparr>key = k, direction = Asc\<rparr>) tab compareMode)
           = sortedMatrix data1 data2 (Some \<lparr>key = k, direction = Desc\<rparr>) tab compareMode"
proof -
  let ?active = "if tab = Secondary \<and> compareMode \<and> data2 \<noteq> None then data2 else data1"
  show ?thesis
  proof (cases ?active)
    case None
    then show ?thesis by (simp add: sortedMatrix_def)
  next
    case (Some a)
    then have "distinct (map (fieldValue k) (matrix a))"
      using assms by (simp add: sortedMatrix_def)
    then show ?thesis
      using Some by (simp add: sortedMatrix_def arraySort_asc_desc)
  qed
qed

theorem sort_asc_reversed_is_desc_witness:
  "distinct (map (fieldValue AvgMobility) (sortedMatrix (Some exampleAggregate) None None Primary False))
   \<and> map name (sortedMatrix (Some exampleAggregate) None (Some \<lparr>key = AvgMobility, direction = Asc\<rparr>) Primary False)
       = [''A'', ''B'', ''C'']
   \<and> map name (sortedMatrix (Some exampleAggregate) None (Some \<lparr>key = AvgMobility, direction = Desc\<rparr>) Primary False)
       = [''C'', ''B'', ''A'']"
proof -
  have h: "distinct (map (fieldValue AvgMobility) (sortedMatrix (Some exampleAggregate) None None Primary False))"
    by (simp add: sortedMatrix_def exampleAggregate_def)
  have a: "map name (sortedMatrix (Some exampleAggregate) None (Some \<lparr>key = AvgMobility, direction = Asc\<rparr>) Primary False)
       = [''A'', ''B'', ''C'']"
    by (simp add: sortedMatrix_def exampleAggregate_def arraySort_def matrixCmp_def)
  show ?thesis
    using h a sort_asc_reversed_is_desc[OF h] by (metis rev_map rev.simps rev_rev_ident append.simps)
qed

text \<open>
  C10. The matrix sorter does not mutate its input. On a store whose arrays all lie
  below the allocation pointer, for every matrix, sort key and direction, \<open>sortedMatrix\<close>
  returns a newly allocated array; every array that existed before the call, the
  aggregate's matrix among them, holds the same references in the same order afterwards
  and reads the same rows; no row object is changed. The new array holds the rows that
  the value model of \<open>sortedMatrix\<close> returns.
\<close>

theorem sortedMatrix_leaves_input:
  assumes wf: "\<forall>a. arrays h a \<noteq> None \<longrightarrow> a < nextRef h"
  shows "\<exists>res h'. sortedMatrixHeap h m1 m2 sortConfig tab compareMode = (res, h')
           \<and> arrays h res = None \<and> arrays h' res \<noteq> None
           \<and> (\<forall>a. arrays h a \<noteq> None \<longrightarrow> arrays h' a = arrays h a \<and> rowsOf h' a = rowsOf h a)
           \<and> objects h' = objects h
           \<and> (matrixAt h m1 data1 \<and> matrixAt h m2 data2 \<longrightarrow>
                rowsOf h' res = Some (sortedMatrix data1 data2 sortConfig tab compareMode))"
proof -
  obtain res h' where res: "sortedMatrixHeap h m1 m2 sortConfig tab compareMode = (res, h')"
    by (cases "sortedMatrixHeap h m1 m2 sortConfig tab compareMode") blast
  note fr = sortedMatrixHeap_frame[OF wf res]
  have old: "\<forall>a. arrays h a \<noteq> None \<longrightarrow> arrays h' a = arrays h a \<and> rowsOf h' a = rowsOf h a"
  proof (intro allI impI)
    fix a assume a: "arrays h a \<noteq> None"
    then have "a \<noteq> res" using fr(2) by auto
    then have "arrays h' a = arrays h a" using fr(5) by simp
    then show "arrays h' a = arrays h a \<and> rowsOf h' a = rowsOf h a"
      using fr(4) by (simp add: rowsOf_def cong: option.case_cong if_cong)
  qed
  have pure: "rowsOf h' res = Some (sortedMatrix data1 data2 sortConfig tab compareMode)"
    if rel: "matrixAt h m1 data1" "matrixAt h m2 data2"
  proof -
    let ?m = "if tab = Secondary \<and> compareMode \<and> m2 \<noteq> None then m2 else m1"
    let ?d = "if tab = Secondary \<and> compareMode \<and> data2 \<noteq> None then data2 else data1"
    have same: "(m2 \<noteq> None) = (data2 \<noteq> None)"
      using rel(2) by (auto simp: matrixAt_def split: option.splits)
    have at: "matrixAt h ?m ?d" using rel same by auto
    show ?thesis
    proof (cases ?m)
      case None
      then have d: "?d = None" using at by (simp add: matrixAt_def)
      have "sortedMatrixHeap h m1 m2 sortConfig tab compareMode = allocArray h []"
        using None by (simp add: sortedMatrixHeap_def)
      then have "arrays h' res = Some []"
        using res by (auto simp: allocArray_def)
      then show ?thesis
        using d by (simp add: rowsOf_empty sortedMatrix_def)
    next
      case (Some a)
      then obtain g where g: "?d = Some g" and rows: "rowsOf h a = Some (matrix g)"
        using at by (auto simp: matrixAt_def split: option.splits)
      then obtain refs where refs: "arrays h a = Some refs"
        by (auto simp: rowsOf_def split: option.splits)
      show ?thesis
      proof (cases sortConfig)
        case None
        have x: "arrays h' res = Some refs"
          using res Some refs None
          by (auto simp: sortedMatrixHeap_def allocArray_def Let_def)
        have "rowsOf h' res = Some (matrix g)"
          by (rule rowsOf_copy[OF fr(4) x refs rows])
        then show ?thesis using g None by (simp add: sortedMatrix_def)
      next
        case (Some cfg)
        have "sortedMatrixHeap h m1 m2 sortConfig tab compareMode
                = (fst (allocArray h refs),
                   sortInPlace (snd (allocArray h refs)) (fst (allocArray h refs))
                     (heapCmp (snd (allocArray h refs)) cfg))"
          using \<open>?m = Some a\<close> refs Some by (simp add: sortedMatrixHeap_def Let_def)
        moreover have "heapCmp (snd (allocArray h refs)) cfg = heapCmp h cfg"
          by (rule heapCmp_objects) (simp add: allocArray_simps)
        ultimately have "h' = sortInPlace (snd (allocArray h refs)) (nextRef h) (heapCmp h cfg)"
          and "res = nextRef h"
          using res by (simp_all add: allocArray_simps)
        then have x: "arrays h' res = Some (arraySort (heapCmp h cfg) refs)"
          by (simp add: sortInPlace_simps(2)[where xs = refs] allocArray_simps)
        have "rowsOf h' res = Some (arraySort (matrixCmp cfg) (matrix g))"
          by (rule rowsOf_sorted[OF fr(4) x refs rows])
        then show ?thesis using g Some by (simp add: sortedMatrix_def)
      qed
    qed
  qed
  show ?thesis
    using res fr(2,3,4) old pure by blast
qed

theorem sortedMatrix_leaves_input_witness:
  "fst (sortedMatrixHeap exampleHeap (Some 0) None (Some \<lparr>key = AvgMobility, direction = Asc\<rparr>) Primary False) = 20
   \<and> arrays exampleHeap 20 = None
   \<and> arrays (snd (sortedMatrixHeap exampleHeap (Some 0) None (Some \<lparr>key = AvgMobility, direction = Asc\<rparr>) Primary False)) 20
       = Some [12, 10, 11]
   \<and> arrays (snd (sortedMatrixHeap exampleHeap (Some 0) None (Some \<lparr>key = AvgMobility, direction = Asc\<rparr>) Primary False)) 0
       = Some [10, 11, 12]
   \<and> objects (snd (sortedMatrixHeap exampleHeap (Some 0) None (Some \<lparr>key = AvgMobility, direction = Asc\<rparr>) Primary False))
       = objects exampleHeap"
proof -
  let ?r = "sortedMatrixHeap exampleHeap (Some 0) None (Some \<lparr>key = AvgMobility, direction = Asc\<rparr>) Primary False"
  have wf: "\<forall>a. arrays exampleHeap a \<noteq> None \<longrightarrow> a < nextRef exampleHeap"
    by (simp add: exampleHeap_def)
  have old: "arrays exampleHeap 0 = Some [10, 11, 12]"
    by (simp add: exampleHeap_def)
  have new: "fst ?r = 20" "arrays (snd ?r) 20 = Some [12, 10, 11]"
    by (simp_all add: sortedMatrixHeap_def exampleHeap_def allocArray_def sortInPlace_def
        heapCmp_def matrixCmp_def arraySort_def exampleAggregate_def Let_def)
  obtain res h' where r: "?r = (res, h')"
    and fresh: "arrays exampleHeap res = None"
    and keep: "\<forall>a. arrays exampleHeap a \<noteq> None \<longrightarrow> arrays h' a = arrays exampleHeap a \<and> rowsOf h' a = rowsOf exampleHeap a"
    and objs: "objects h' = objects exampleHeap"
    using sortedMatrix_leaves_input[OF wf, of "Some 0" None "Some \<lparr>key = AvgMobility, direction = Asc\<rparr>" Primary False]
    by blast
  have "res = 20" using new(1) r by simp
  moreover have "arrays h' 0 = Some [10, 11, 12]" using keep old by simp
  ultimately show ?thesis
    using new fresh objs r by simp
qed

end
